theory Spec2Isabelle
  imports Main
begin

section \<open>The adjacency-matrix parser of GEM++ (AdjacencyMatrixParser.cpp)\<close>

text \<open>
  The parser reads a text holding two adjacency matrices, one after the other, and
  builds two directed graphs. The embedding follows the two functions of
  \<^verbatim>\<open>AdjacencyMatrixParser.cpp\<close>: \<^verbatim>\<open>parseData\<close> and \<^verbatim>\<open>parseSingleGraph\<close>.
  A \<^verbatim>\<open>QString\<close> is a \<^typ>\<open>string\<close> (characters of the Latin-1 range), a
  \<^verbatim>\<open>QStringList\<close> a \<^typ>\<open>string list\<close>, a C++ \<^verbatim>\<open>int\<close> an \<^typ>\<open>int\<close> with the
  32-bit wrap-around written out at the one addition that can leave the range.
\<close>

subsection \<open>Qt string operations used by the parser\<close>

text \<open>
  \<^verbatim>\<open>QChar::isSpace\<close> on the Latin-1 range: space, the control characters 9 to 13,
  NEL (0x85) and the no-break space (0xA0).
\<close>

definition isSpace :: "char \<Rightarrow> bool" where
  "isSpace c \<longleftrightarrow>
     (let n = of_char c :: nat in n = 32 \<or> (9 \<le> n \<and> n \<le> 13) \<or> n = 133 \<or> n = 160)"

text \<open>\<^verbatim>\<open>QString::trimmed\<close>: whitespace removed from both ends.\<close>

definition trimmed :: "string \<Rightarrow> string" where
  "trimmed s = rev (dropWhile isSpace (rev (dropWhile isSpace s)))"

text \<open>
  \<^verbatim>\<open>QString::split(sep)\<close> with the default \<^verbatim>\<open>KeepEmptyParts\<close>: the pieces between
  the separators, empty pieces included.
\<close>

fun splitKeep :: "char \<Rightarrow> string \<Rightarrow> string list" where
  "splitKeep sep [] = [[]]"
| "splitKeep sep (c # cs) =
     (if c = sep then [] # splitKeep sep cs
      else (c # hd (splitKeep sep cs)) # tl (splitKeep sep cs))"

text \<open>\<^verbatim>\<open>QString::split(sep, QString::SkipEmptyParts)\<close>: the empty pieces are left out.\<close>

definition split :: "char \<Rightarrow> string \<Rightarrow> string list" where
  "split sep s = filter (\<lambda>p. p \<noteq> []) (splitKeep sep s)"

text \<open>
  \<^verbatim>\<open>QString::toInt(&ok)\<close> in base 10: surrounding whitespace is ignored, then an
  optional sign and at least one decimal digit must make up the whole text, and the
  value must fit a 32-bit \<^verbatim>\<open>int\<close>. \<open>None\<close> stands for \<^verbatim>\<open>ok == false\<close>.
\<close>

definition INT_MAX :: int where
  "INT_MAX = 2147483647"

definition INT_MIN :: int where
  "INT_MIN = - 2147483648"

definition isDigit :: "char \<Rightarrow> bool" where
  "isDigit c \<longleftrightarrow> (let n = of_char c :: nat in 48 \<le> n \<and> n \<le> 57)"

definition digitValue :: "char \<Rightarrow> int" where
  "digitValue c = int (of_char c) - 48"

definition decimal :: "string \<Rightarrow> int" where
  "decimal ds = foldl (\<lambda>acc c. 10 * acc + digitValue c) 0 ds"

definition toInt :: "string \<Rightarrow> int option" where
  "toInt s =
     (let t = trimmed s;
          neg = (t \<noteq> [] \<and> hd t = CHR ''-'');
          ds = (if t \<noteq> [] \<and> (hd t = CHR ''-'' \<or> hd t = CHR ''+'') then tl t else t)
      in if ds = [] \<or> \<not> list_all isDigit ds then None
         else let v = (if neg then - decimal ds else decimal ds)
              in if INT_MIN \<le> v \<and> v \<le> INT_MAX then Some v else None)"

text \<open>\<^verbatim>\<open>QString::number(n)\<close>: the decimal digits of \<^verbatim>\<open>n\<close>, after a minus sign when it is negative.\<close>

fun digits :: "nat \<Rightarrow> string" where
  "digits n =
     (if n < 10 then [char_of (48 + n)]
      else digits (n div 10) @ [char_of (48 + n mod 10)])"

declare digits.simps [simp del]

definition number :: "int \<Rightarrow> string" where
  "number n = (if n < 0 then CHR ''-'' # digits (nat (- n)) else digits (nat n))"

text \<open>
  \<^verbatim>\<open>QString::arg\<close>. A place marker is a percent sign, an optional \<^verbatim>\<open>L\<close> and one
  or two decimal digits. \<open>pieces\<close> is the scan of the text for its place markers,
  from left to right: the characters outside place markers, and the place markers
  with their number and their own text.
\<close>

datatype piece = Text char | Marker nat string

fun pieces :: "string \<Rightarrow> piece list" where
  "pieces [] = []"
| "pieces (c # cs) =
     (if c \<noteq> CHR ''%'' then Text c # pieces cs
      else
        (case cs of
           [] \<Rightarrow> [Text c]
         | d # ds \<Rightarrow>
             if d = CHR ''L'' then
               (case ds of
                  [] \<Rightarrow> [Text c, Text d]
                | e # es \<Rightarrow>
                    if isDigit e then
                      (case es of
                         [] \<Rightarrow> [Marker (nat (digitValue e)) [c, d, e]]
                       | f # fs \<Rightarrow>
                           if isDigit f then
                             Marker (nat (10 * digitValue e + digitValue f)) [c, d, e, f] # pieces fs
                           else Marker (nat (digitValue e)) [c, d, e] # pieces (f # fs))
                    else Text c # Text d # pieces (e # es))
             else if isDigit d then
               (case ds of
                  [] \<Rightarrow> [Marker (nat (digitValue d)) [c, d]]
                | f # fs \<Rightarrow>
                    if isDigit f then
                      Marker (nat (10 * digitValue d + digitValue f)) [c, d, f] # pieces fs
                    else Marker (nat (digitValue d)) [c, d] # pieces (f # fs))
             else Text c # pieces (d # ds)))"

definition markerNumbers :: "piece list \<Rightarrow> nat list" where
  "markerNumbers ps = concat (map (\<lambda>p. case p of Text _ \<Rightarrow> [] | Marker k _ \<Rightarrow> [k]) ps)"

definition substitute :: "nat \<Rightarrow> string \<Rightarrow> piece \<Rightarrow> string" where
  "substitute m a p = (case p of Text c \<Rightarrow> [c] | Marker k t \<Rightarrow> if k = m then a else t)"

text \<open>
  \<^verbatim>\<open>s.arg(a)\<close>: every place marker of \<open>s\<close> that bears the lowest number found in
  \<open>s\<close> is replaced by \<open>a\<close>; a text without place marker is returned as it is.
  The markers are looked for in the whole text, also in what an earlier
  \<^verbatim>\<open>arg\<close> has put there. For a number, \<^verbatim>\<open>s.arg(n)\<close> is \<open>arg s (number n)\<close> (the
  model writes a number in the same way for a place marker with \<^verbatim>\<open>L\<close>).
\<close>

definition arg :: "string \<Rightarrow> string \<Rightarrow> string" where
  "arg s a =
     (let ps = pieces s; ks = markerNumbers ps
      in if ks = [] then s else concat (map (substitute (fold min ks (hd ks)) a) ps))"

text \<open>
  Two's-complement wrap-around of a 32-bit \<^verbatim>\<open>int\<close>, for the sum
  \<^verbatim>\<open>currentLine + vertexCount\<close>.
\<close>

definition wrap32 :: "int \<Rightarrow> int" where
  "wrap32 x = (x + 2147483648) mod 4294967296 - 2147483648"

text \<open>
  \<^verbatim>\<open>lines[k]\<close> on a \<^verbatim>\<open>QStringList\<close>: the index must lie in \<open>0..size-1\<close>
  (Qt asserts it). \<open>None\<close> stands for an access outside the list.
\<close>

definition at :: "'a list \<Rightarrow> int \<Rightarrow> 'a option" where
  "at xs k = (if 0 \<le> k \<and> k < int (length xs) then Some (xs ! nat k) else None)"

subsection \<open>Graphs\<close>

text \<open>
  Modelled from the spec: the types \<^verbatim>\<open>Graph\<close>, \<^verbatim>\<open>Vertex\<close> and \<^verbatim>\<open>Edge\<close> (Graph.h,
  Vertex.h and Edge.h are missing). A graph owns its vertices, addressed by their
  creation index, and its edges; every vertex keeps its outgoing and its incoming
  edges; an edge is an ordered pair of an origin and a target vertex. A vertex is
  identified here by its creation index in its graph.
\<close>

record edge =
  origin :: nat
  target :: nat

record vertex =
  vid :: string
  edgesOut :: "edge list"
  edgesIn :: "edge list"

datatype graphType = DIRECTED | UNDIRECTED

record graph =
  gtype :: graphType
  gid :: string
  vertices :: "vertex list"
  edges :: "edge list"

datatype direction = EDGE_IN | EDGE_OUT

text \<open>
  Modelled from the spec: \<^verbatim>\<open>new Graph(type)\<close> (Graph.h is missing), a new graph
  with no vertex and no edge.
\<close>

definition newGraph :: "graphType \<Rightarrow> graph" where
  "newGraph t = \<lparr>gtype = t, gid = [], vertices = [], edges = []\<rparr>"

text \<open>
  Modelled from the spec: \<^verbatim>\<open>Graph::setID\<close> (Graph.h is missing), which sets the
  identifier of the graph.
\<close>

definition setID :: "string \<Rightarrow> graph \<Rightarrow> graph" where
  "setID s g = g\<lparr>gid := s\<rparr>"

text \<open>
  Modelled from the spec: \<^verbatim>\<open>Graph::addVertex(new Vertex(), label)\<close> (Graph.h is
  missing), which adds a new vertex with this label and no incident edge,
  addressable later by its creation index.
\<close>

definition addVertex :: "string \<Rightarrow> graph \<Rightarrow> graph" where
  "addVertex label g =
     g\<lparr>vertices := vertices g @ [\<lparr>vid = label, edgesOut = [], edgesIn = []\<rparr>]\<rparr>"

text \<open>
  Modelled from the spec: \<^verbatim>\<open>Graph::addEdge\<close> (Graph.h is missing), which registers
  the edge with the graph.
\<close>

definition addEdge :: "edge \<Rightarrow> graph \<Rightarrow> graph" where
  "addEdge e g = g\<lparr>edges := edges g @ [e]\<rparr>"

text \<open>
  Modelled from the spec: \<^verbatim>\<open>graph->getVertex(v)->addEdge(edge, dir)\<close> (Graph.h and
  Vertex.h are missing), which registers the edge as outgoing or as incoming on
  vertex \<open>v\<close> of the graph.
\<close>

definition vertexAddEdge :: "nat \<Rightarrow> edge \<Rightarrow> direction \<Rightarrow> graph \<Rightarrow> graph" where
  "vertexAddEdge v e dir g =
     (let x = vertices g ! v;
          x' = (case dir of
                  EDGE_OUT \<Rightarrow> x\<lparr>edgesOut := edgesOut x @ [e]\<rparr>
                | EDGE_IN \<Rightarrow> x\<lparr>edgesIn := edgesIn x @ [e]\<rparr>)
      in g\<lparr>vertices := (vertices g)[v := x']\<rparr>)"

subsection \<open>Errors\<close>

text \<open>
  The parser has one kind of exception, which carries a message. The second
  constructor is not an exception of the parser: it stands for an access to a line
  outside the list of lines.
\<close>

datatype error = Message string | IndexOutOfRange

text \<open>
  The messages of the parser, each built as the source builds it, by the calls of
  \<^verbatim>\<open>arg\<close> one after the other: line 24, line 41, line 48, line 55, lines 74 and 75,
  lines 82 and 83, lines 90 and 91.
\<close>

definition MalformedInput :: error where
  "MalformedInput = Message ''File must contain at least two graphs (vertex count lines)''"

definition UnexpectedEndOfInput :: "int \<Rightarrow> error" where
  "UnexpectedEndOfInput graph =
     Message (arg ''Unexpected end of file while parsing graph %1'' (number graph))"

definition InvalidVertexCount :: "string \<Rightarrow> int \<Rightarrow> error" where
  "InvalidVertexCount line graph =
     Message (arg (arg ''Invalid vertex count '%1' for graph %2'' line) (number graph))"

definition InsufficientMatrixRows :: "int \<Rightarrow> error" where
  "InsufficientMatrixRows graph =
     Message (arg ''Not enough lines for adjacency matrix of graph %1'' (number graph))"

definition RowLengthMismatch :: "int \<Rightarrow> int \<Rightarrow> int \<Rightarrow> int \<Rightarrow> error" where
  "RowLengthMismatch row graph found expected =
     Message
       (arg (arg (arg (arg ''Adjacency matrix row %1 of graph %2 has %3 values, expected %4''
          (number row)) (number graph)) (number found)) (number expected))"

definition InvalidMatrixValue :: "string \<Rightarrow> int \<Rightarrow> int \<Rightarrow> int \<Rightarrow> error" where
  "InvalidMatrixValue token row column graph =
     Message
       (arg (arg (arg (arg ''Invalid adjacency matrix value '%1' at position (%2,%3) in graph %4''
          token) (number row)) (number column)) (number graph))"

definition MatrixValueNotBinary :: "int \<Rightarrow> int \<Rightarrow> int \<Rightarrow> int \<Rightarrow> error" where
  "MatrixValueNotBinary weight row column graph =
     Message
       (arg (arg (arg (arg ''Adjacency matrix value %1 at position (%2,%3) in graph %4 is not 0 or 1''
          (number weight)) (number row)) (number column)) (number graph))"

text \<open>
  Modelled from the spec: \<^verbatim>\<open>Exception(msg)\<close> (Core/Exception.h is missing). Every
  failure is immediately fatal to the parse call: the call ends there with this
  error and returns nothing.
\<close>

definition Exception :: "error \<Rightarrow> error + 'a" where
  "Exception e = Inl e"

subsection \<open>parseSingleGraph\<close>

text \<open>Lines 94 to 101: a new edge from vertex \<open>i\<close> to vertex \<open>j\<close>.\<close>

definition connect :: "nat \<Rightarrow> nat \<Rightarrow> graph \<Rightarrow> graph" where
  "connect i j graph =
     (let e = \<lparr>origin = i, target = j\<rparr>;
          graph = addEdge e graph;
          graph = vertexAddEdge i e EDGE_OUT graph
      in vertexAddEdge j e EDGE_IN graph)"

text \<open>
  Lines 78 to 103, the loop over the columns \<open>j\<close> of row \<open>i\<close>; the list holds the
  columns still to visit.
\<close>

fun cellLoop :: "string list \<Rightarrow> int \<Rightarrow> nat \<Rightarrow> nat list \<Rightarrow> graph \<Rightarrow> error + graph" where
  "cellLoop values graphIndex i [] graph = Inr graph"
| "cellLoop values graphIndex i (j # js) graph =
     (case toInt (values ! j) of
        None \<Rightarrow>
          Exception (InvalidMatrixValue (values ! j) (int i + 1) (int j + 1) (graphIndex + 1))
      | Some weight \<Rightarrow>
          if weight \<noteq> 0 then
            if weight \<noteq> 1 then
              Exception (MatrixValueNotBinary weight (int i + 1) (int j + 1) (graphIndex + 1))
            else cellLoop values graphIndex i js (connect i j graph)
          else cellLoop values graphIndex i js graph)"

text \<open>Lines 69 to 104, the loop over the rows \<open>i\<close>; the list holds the rows still to visit.\<close>

fun rowLoop ::
  "string list \<Rightarrow> int \<Rightarrow> int \<Rightarrow> int \<Rightarrow> nat list \<Rightarrow> graph \<Rightarrow> error + graph" where
  "rowLoop lines currentLine vertexCount graphIndex [] graph = Inr graph"
| "rowLoop lines currentLine vertexCount graphIndex (i # is) graph =
     (case at lines (currentLine + int i) of
        None \<Rightarrow> Inl IndexOutOfRange
      | Some line \<Rightarrow>
          let values = split CHR '' '' line in
          if int (length values) \<noteq> vertexCount then
            Exception (RowLengthMismatch (int i + 1) (graphIndex + 1)
                         (int (length values)) vertexCount)
          else
            (case cellLoop values graphIndex i [0..<nat vertexCount] graph of
               Inl e \<Rightarrow> Inl e
             | Inr graph' \<Rightarrow> rowLoop lines currentLine vertexCount graphIndex is graph'))"

text \<open>Lines 58 to 66: the new graph and its vertices.\<close>

definition createGraph :: "int \<Rightarrow> int \<Rightarrow> graph" where
  "createGraph graphIndex vertexCount =
     fold (\<lambda>i. addVertex (number (int i))) [0..<nat vertexCount]
       (setID (''graph_'' @ number graphIndex) (newGraph DIRECTED))"

text \<open>
  Lines 39 to 107. The count line can read any value up to 2147483647, so the sum
  \<^verbatim>\<open>currentLine + vertexCount\<close> of lines 54 and 106 can leave the range of
  \<^verbatim>\<open>int\<close>; the model takes the two's-complement result there. The other sums
  stay in range on a list of at most 2147483647 lines: \<^verbatim>\<open>startLine + 1\<close> since
  \<^verbatim>\<open>startLine < lines.size()\<close>, \<^verbatim>\<open>i + 1\<close> and \<^verbatim>\<open>j + 1\<close> since both are below
  \<^verbatim>\<open>vertexCount\<close>, and \<^verbatim>\<open>currentLine + i\<close> since a row outside the list ends
  the loop before.
\<close>

definition parseSingleGraph :: "string list \<Rightarrow> int \<Rightarrow> int \<Rightarrow> error + graph \<times> int" where
  "parseSingleGraph lines startLine graphIndex =
     (if startLine \<ge> int (length lines) then
        Exception (UnexpectedEndOfInput (graphIndex + 1))
      else
        case at lines startLine of
          None \<Rightarrow> Inl IndexOutOfRange
        | Some header \<Rightarrow>
            (case toInt header of
               None \<Rightarrow> Exception (InvalidVertexCount header (graphIndex + 1))
             | Some vertexCount \<Rightarrow>
                 if vertexCount \<le> 0 then
                   Exception (InvalidVertexCount header (graphIndex + 1))
                 else
                   let currentLine = startLine + 1 in
                   if wrap32 (currentLine + vertexCount) > int (length lines) then
                     Exception (InsufficientMatrixRows (graphIndex + 1))
                   else
                     (case rowLoop lines currentLine vertexCount graphIndex
                             [0..<nat vertexCount] (createGraph graphIndex vertexCount) of
                        Inl e \<Rightarrow> Inl e
                      | Inr graph \<Rightarrow> Inr (graph, wrap32 (currentLine + vertexCount)))))"

subsection \<open>parseData\<close>

text \<open>
  Lines 18 to 21: \<^verbatim>\<open>while(!lines.isEmpty() && lines.last().isEmpty()) lines.removeLast()\<close>.
\<close>

function removeTrailingEmpty :: "string list \<Rightarrow> string list" where
  "removeTrailingEmpty lines =
     (if lines \<noteq> [] \<and> last lines = [] then removeTrailingEmpty (butlast lines) else lines)"
  by pat_completeness auto
termination
  by (relation "measure length") auto

declare removeTrailingEmpty.simps [simp del]

text \<open>Lines 11 to 21: the lines the parser works on.\<close>

definition lineStream :: "string \<Rightarrow> string list" where
  "lineStream data = removeTrailingEmpty (map trimmed (split CHR 0x0A data))"

definition parseLines :: "string list \<Rightarrow> error + graph \<times> graph" where
  "parseLines lines =
     (if length lines < 2 then Exception MalformedInput
      else
        case parseSingleGraph lines 0 0 of
          Inl e \<Rightarrow> Inl e
        | Inr (graph1, nextLine) \<Rightarrow>
            (case parseSingleGraph lines nextLine 1 of
               Inl e \<Rightarrow> Inl e
             | Inr (graph2, _) \<Rightarrow> Inr (graph1, graph2)))"

definition parseData :: "string \<Rightarrow> error + graph \<times> graph" where
  "parseData data = parseLines (lineStream data)"

section \<open>Vocabulary of the properties\<close>

subsection \<open>What the loops do when no check fails\<close>

text \<open>
  The body of the column loop and of the row loop without their error branches:
  the effect of one cell and of one row on the graph under construction.
\<close>

definition cellEffect :: "string list \<Rightarrow> nat \<Rightarrow> nat \<Rightarrow> graph \<Rightarrow> graph" where
  "cellEffect values i j g = (if toInt (values ! j) = Some 1 then connect i j g else g)"

definition rowEffect :: "string list \<Rightarrow> int \<Rightarrow> int \<Rightarrow> nat \<Rightarrow> graph \<Rightarrow> graph" where
  "rowEffect lines currentLine vertexCount i g =
     fold (cellEffect (split CHR '' '' (lines ! nat (currentLine + int i))) i)
       [0..<nat vertexCount] g"

definition builtGraph :: "string list \<Rightarrow> int \<Rightarrow> int \<Rightarrow> int \<Rightarrow> graph" where
  "builtGraph lines currentLine vertexCount graphIndex =
     fold (rowEffect lines currentLine vertexCount) [0..<nat vertexCount]
       (createGraph graphIndex vertexCount)"

definition rowEdges :: "string list \<Rightarrow> int \<Rightarrow> int \<Rightarrow> nat \<Rightarrow> edge list" where
  "rowEdges lines c n i =
     map (\<lambda>j. \<lparr>origin = i, target = j\<rparr>)
       (filter (\<lambda>j. toInt (split CHR '' '' (lines ! nat (c + int i)) ! j) = Some 1) [0..<nat n])"

text \<open>Every vertex holds exactly the edges of the graph that leave it and that enter it.\<close>

definition adjacent :: "graph \<Rightarrow> bool" where
  "adjacent g \<longleftrightarrow>
     (\<forall>v < length (vertices g).
        edgesOut (vertices g ! v) = filter (\<lambda>e. origin e = v) (edges g) \<and>
        edgesIn (vertices g ! v) = filter (\<lambda>e. target e = v) (edges g))"

subsection \<open>Blocks of the input format\<close>

text \<open>
  A block starts at line \<open>s\<close> of the line stream: its count line is line \<open>s\<close>, row
  \<open>i\<close> of its matrix is line \<open>s + 1 + i\<close>, and cell \<open>(i, j)\<close> is the value of the
  \<open>j\<close>-th token of that row.
\<close>

definition matrixCell :: "string list \<Rightarrow> nat \<Rightarrow> nat \<Rightarrow> nat \<Rightarrow> int option" where
  "matrixCell lines s i j = toInt (split CHR '' '' (lines ! (s + 1 + i)) ! j)"

text \<open>A row of a block of \<open>n\<close> vertices is valid: \<open>n\<close> tokens, each of value 0 or 1.\<close>

definition validRow :: "string list \<Rightarrow> nat \<Rightarrow> nat \<Rightarrow> nat \<Rightarrow> bool" where
  "validRow lines s n i \<longleftrightarrow>
     length (split CHR '' '' (lines ! (s + 1 + i))) = n \<and>
     list_all (\<lambda>j. matrixCell lines s i j = Some 0 \<or> matrixCell lines s i j = Some 1) [0..<n]"

text \<open>
  A well-formed block of \<open>n\<close> vertices at line \<open>s\<close>: the count line reads the
  positive integer \<open>n\<close>, the \<open>n\<close> rows are there and each is valid.
\<close>

definition validBlock :: "string list \<Rightarrow> nat \<Rightarrow> nat \<Rightarrow> bool" where
  "validBlock lines s n \<longleftrightarrow>
     0 < n \<and> s + n < length lines \<and> toInt (lines ! s) = Some (int n) \<and>
     list_all (validRow lines s n) [0..<n]"

text \<open>
  The block at line \<open>s\<close> is one that \<^verbatim>\<open>parseData\<close> reads under the index
  \<open>graphIndex\<close>: the first block, or the second block after a well-formed first
  block (which ends at line \<open>s - 1\<close>).
\<close>

definition reachedBlock :: "string list \<Rightarrow> nat \<Rightarrow> int \<Rightarrow> bool" where
  "reachedBlock lines s graphIndex \<longleftrightarrow>
     (s = 0 \<and> graphIndex = 0) \<or> (0 < s \<and> graphIndex = 1 \<and> validBlock lines 0 (s - 1))"

text \<open>The edges of the matrix of a block, row by row and left to right within a row.\<close>

definition matrixEdges :: "string list \<Rightarrow> nat \<Rightarrow> nat \<Rightarrow> edge list" where
  "matrixEdges lines s n =
     map (\<lambda>(i, j). \<lparr>origin = i, target = j\<rparr>)
       (filter (\<lambda>(i, j). matrixCell lines s i j = Some 1) (List.product [0..<n] [0..<n]))"

text \<open>
  A graph is the graph of the block of \<open>n\<close> vertices at line \<open>s\<close>: \<open>n\<close> vertices,
  labelled by their index as text in index order; no edge twice; the edges are
  those of the cells that hold 1; every vertex holds its outgoing and its incoming
  edges and no other.
\<close>

definition representsMatrix :: "string list \<Rightarrow> nat \<Rightarrow> nat \<Rightarrow> graph \<Rightarrow> bool" where
  "representsMatrix lines s n g \<longleftrightarrow>
     length (vertices g) = n \<and>
     map vid (vertices g) = map (\<lambda>i. number (int i)) [0..<n] \<and>
     distinct (edges g) \<and>
     set (edges g) =
       {\<lparr>origin = i, target = j\<rparr> | i j. i < n \<and> j < n \<and> matrixCell lines s i j = Some 1} \<and>
     (\<forall>v < n. edgesOut (vertices g ! v) = filter (\<lambda>e. origin e = v) (edges g) \<and>
              edgesIn (vertices g ! v) = filter (\<lambda>e. target e = v) (edges g))"

text \<open>The test of line 47 on the count line: not an integer, or not positive.\<close>

definition invalidCount :: "string \<Rightarrow> bool" where
  "invalidCount t \<longleftrightarrow> (case toInt t of None \<Rightarrow> True | Some vertexCount \<Rightarrow> vertexCount \<le> 0)"

subsection \<open>Violations in scan order\<close>

text \<open>
  All the violations of a block, listed in the order in which a reader goes through
  the block: the count line, then the rows from top to bottom, and within a row its
  length before its cells from left to right. A row of the wrong length counts as
  one violation; its cells are not looked at.
\<close>

definition cellViolation :: "string list \<Rightarrow> int \<Rightarrow> nat \<Rightarrow> nat \<Rightarrow> error list" where
  "cellViolation values graphIndex i j =
     (case toInt (values ! j) of
        None \<Rightarrow> [InvalidMatrixValue (values ! j) (int i + 1) (int j + 1) (graphIndex + 1)]
      | Some weight \<Rightarrow>
          if weight = 0 \<or> weight = 1 then []
          else [MatrixValueNotBinary weight (int i + 1) (int j + 1) (graphIndex + 1)])"

definition rowViolations :: "string list \<Rightarrow> int \<Rightarrow> int \<Rightarrow> int \<Rightarrow> nat \<Rightarrow> error list" where
  "rowViolations lines currentLine vertexCount graphIndex i =
     (let values = split CHR '' '' (lines ! nat (currentLine + int i)) in
      if int (length values) \<noteq> vertexCount then
        [RowLengthMismatch (int i + 1) (graphIndex + 1) (int (length values)) vertexCount]
      else concat (map (cellViolation values graphIndex i) [0..<nat vertexCount]))"

definition matrixViolations :: "string list \<Rightarrow> int \<Rightarrow> int \<Rightarrow> int \<Rightarrow> error list" where
  "matrixViolations lines currentLine vertexCount graphIndex =
     concat (map (rowViolations lines currentLine vertexCount graphIndex) [0..<nat vertexCount])"


definition blockViolations :: "string list \<Rightarrow> nat \<Rightarrow> int \<Rightarrow> error list" where
  "blockViolations lines s graphIndex =
     (if length lines \<le> s then [UnexpectedEndOfInput (graphIndex + 1)]
      else if invalidCount (lines ! s) then [InvalidVertexCount (lines ! s) (graphIndex + 1)]
      else if int (length lines) < int s + 1 + the (toInt (lines ! s)) then
        [InsufficientMatrixRows (graphIndex + 1)]
      else matrixViolations lines (int s + 1) (the (toInt (lines ! s))) graphIndex)"

text \<open>
  The sum \<^verbatim>\<open>currentLine + vertexCount\<close> of line 54, for the block at line \<open>s\<close>,
  stays within the range of \<^verbatim>\<open>int\<close>.
\<close>

definition noOverflow :: "string list \<Rightarrow> nat \<Rightarrow> bool" where
  "noOverflow lines s \<longleftrightarrow>
     (if s < length lines then
        (case toInt (lines ! s) of
           None \<Rightarrow> True
         | Some vertexCount \<Rightarrow> int s + 1 + vertexCount \<le> INT_MAX)
      else True)"

subsection \<open>Texts made of lines\<close>

text \<open>The text whose lines are the given ones, a line feed between two lines.\<close>

fun joinLines :: "string list \<Rightarrow> string" where
  "joinLines [] = []"
| "joinLines [l] = l"
| "joinLines (l # ls) = l @ CHR 0x0A # joinLines ls"

subsection \<open>The texts of the messages\<close>

text \<open>The text of a piece of a scan for place markers.\<close>

definition pieceText :: "piece \<Rightarrow> string" where
  "pieceText p = (case p of Text c \<Rightarrow> [c] | Marker k t \<Rightarrow> t)"

text \<open>
  The messages as a reader of the source's texts expects them: the words of the
  text, with each value at the place of its marker. The count line and the token
  stand between two apostrophes.
\<close>

definition vertexCountText :: "string \<Rightarrow> int \<Rightarrow> string" where
  "vertexCountText line block =
     ''Invalid vertex count '' @ CHR 0x27 # line @ CHR 0x27 # '' for graph '' @ number block"

definition rowLengthText :: "int \<Rightarrow> int \<Rightarrow> int \<Rightarrow> int \<Rightarrow> string" where
  "rowLengthText row block found expected =
     ''Adjacency matrix row '' @ number row @ '' of graph '' @ number block @ '' has '' @
     number found @ '' values, expected '' @ number expected"

definition invalidValueText :: "string \<Rightarrow> int \<Rightarrow> int \<Rightarrow> int \<Rightarrow> string" where
  "invalidValueText token row column block =
     ''Invalid adjacency matrix value '' @ CHR 0x27 # token @ CHR 0x27 # '' at position ('' @
     number row @ '','' @ number column @ '') in graph '' @ number block"



section \<open>Auxiliary facts\<close>

lemma cellLoop_char:
  "cellLoop values gi i js g =
     (case concat (map (cellViolation values gi i) js) of
        [] \<Rightarrow> Inr (fold (cellEffect values i) js g)
      | e # _ \<Rightarrow> Inl e)"
proof (induction js arbitrary: g)
  case Nil
  show ?case by simp
next
  case (Cons j js)
  show ?case
  proof (cases "toInt (values ! j)")
    case None
    then have "cellViolation values gi i j =
        [InvalidMatrixValue (values ! j) (int i + 1) (int j + 1) (gi + 1)]"
      by (simp add: cellViolation_def)
    then show ?thesis using None by (simp add: Exception_def)
  next
    case (Some w)
    show ?thesis
    proof (cases "w = 0 \<or> w = 1")
      case True
      then have cv: "cellViolation values gi i j = []"
        using Some by (simp add: cellViolation_def)
      have step: "cellLoop values gi i (j # js) g = cellLoop values gi i js (cellEffect values i j g)"
        using True Some by (auto simp add: cellEffect_def)
      have c1: "concat (map (cellViolation values gi i) (j # js)) =
          concat (map (cellViolation values gi i) js)"
        by (simp add: cv)
      have f1: "fold (cellEffect values i) (j # js) g =
          fold (cellEffect values i) js (cellEffect values i j g)"
        by simp
      show ?thesis
        unfolding step c1 f1 by (rule Cons.IH)
    next
      case False
      then have "cellViolation values gi i j =
          [MatrixValueNotBinary w (int i + 1) (int j + 1) (gi + 1)]"
        using Some by (simp add: cellViolation_def)
      then show ?thesis using False Some by (simp add: Exception_def)
    qed
  qed
qed

lemma rowLoop_char:
  assumes "\<forall>i \<in> set is. 0 \<le> c + int i \<and> c + int i < int (length lines)"
  shows "rowLoop lines c n gi is g =
     (case concat (map (rowViolations lines c n gi) is) of
        [] \<Rightarrow> Inr (fold (rowEffect lines c n) is g)
      | e # _ \<Rightarrow> Inl e)"
  using assms
proof (induction "is" arbitrary: g)
  case Nil
  show ?case by simp
next
  case (Cons i "is")
  have at_i: "at lines (c + int i) = Some (lines ! nat (c + int i))"
    using Cons.prems by (simp add: at_def)
  have rest: "\<forall>i \<in> set is. 0 \<le> c + int i \<and> c + int i < int (length lines)"
    using Cons.prems by simp
  let ?toks = "split CHR '' '' (lines ! nat (c + int i))"
  show ?case
  proof (cases "int (length ?toks) \<noteq> n")
    case True
    then show ?thesis
      by (simp add: at_i rowViolations_def Exception_def)
  next
    case False
    then have rv: "rowViolations lines c n gi i = concat (map (cellViolation ?toks gi i) [0..<nat n])"
      by (simp add: rowViolations_def)
    have step: "rowLoop lines c n gi (i # is) g =
        (case cellLoop ?toks gi i [0..<nat n] g of
           Inl e \<Rightarrow> Inl e
         | Inr g' \<Rightarrow> rowLoop lines c n gi is g')"
      using False by (simp add: at_i)
    show ?thesis
    proof (cases "rowViolations lines c n gi i")
      case Nil
      have cl: "cellLoop ?toks gi i [0..<nat n] g = Inr (rowEffect lines c n i g)"
        unfolding cellLoop_char rv [symmetric] Nil rowEffect_def by simp
      have c1: "concat (map (rowViolations lines c n gi) (i # is)) =
          concat (map (rowViolations lines c n gi) is)"
        by (simp add: Nil)
      have f1: "fold (rowEffect lines c n) (i # is) g =
          fold (rowEffect lines c n) is (rowEffect lines c n i g)"
        by simp
      show ?thesis
        unfolding step cl c1 f1 using Cons.IH [OF rest] by simp
    next
      case (Cons e es)
      have cl: "cellLoop ?toks gi i [0..<nat n] g = Inl e"
        unfolding cellLoop_char rv [symmetric] Cons by simp
      have c1: "concat (map (rowViolations lines c n gi) (i # is)) =
          e # es @ concat (map (rowViolations lines c n gi) is)"
        by (simp add: Cons)
      show ?thesis
        unfolding step cl c1 by simp
    qed
  qed
qed

lemma map_update_same:
  assumes "f x = f (xs ! i)"
  shows "map f (xs[i := x]) = map f xs"
proof (cases "i < length xs")
  case True
  then show ?thesis using assms by (simp add: map_update list_update_same_conv)
next
  case False
  then have "xs[i := x] = xs" by (simp add: list_update_beyond)
  then show ?thesis by simp
qed

lemma vertexAddEdge_vertices:
  "length (vertices (vertexAddEdge v e d g)) = length (vertices g)"
  "map vid (vertices (vertexAddEdge v e d g)) = map vid (vertices g)"
  "gid (vertexAddEdge v e d g) = gid g"
  "gtype (vertexAddEdge v e d g) = gtype g"
  "edges (vertexAddEdge v e d g) = edges g"
  by (cases d; simp add: vertexAddEdge_def Let_def map_update_same)+

lemma connect_vertices:
  "length (vertices (connect i j g)) = length (vertices g)"
  "map vid (vertices (connect i j g)) = map vid (vertices g)"
  "gid (connect i j g) = gid g"
  "gtype (connect i j g) = gtype g"
  "edges (connect i j g) = edges g @ [\<lparr>origin = i, target = j\<rparr>]"
  by (simp_all add: connect_def vertexAddEdge_vertices addEdge_def Let_def)

lemma connect_adjacent:
  assumes "adjacent g" "i < length (vertices g)" "j < length (vertices g)"
  shows "adjacent (connect i j g)"
  using assms
  unfolding adjacent_def connect_def addEdge_def vertexAddEdge_def Let_def
  by (auto simp add: nth_list_update)

lemma cellEffect_vertices:
  "length (vertices (cellEffect values i j g)) = length (vertices g)"
  "map vid (vertices (cellEffect values i j g)) = map vid (vertices g)"
  "gid (cellEffect values i j g) = gid g"
  "gtype (cellEffect values i j g) = gtype g"
  "edges (cellEffect values i j g) =
     edges g @ (if toInt (values ! j) = Some 1 then [\<lparr>origin = i, target = j\<rparr>] else [])"
  by (simp_all add: cellEffect_def connect_vertices)

lemma cellEffect_adjacent:
  assumes "adjacent g" "i < length (vertices g)" "j < length (vertices g)"
  shows "adjacent (cellEffect values i j g)"
  using assms by (simp add: cellEffect_def connect_adjacent)

lemma fold_cellEffect:
  assumes "adjacent g" "i < length (vertices g)" "\<forall>j \<in> set js. j < length (vertices g)"
  shows "adjacent (fold (cellEffect values i) js g) \<and>
         map vid (vertices (fold (cellEffect values i) js g)) = map vid (vertices g) \<and>
         gid (fold (cellEffect values i) js g) = gid g \<and>
         gtype (fold (cellEffect values i) js g) = gtype g \<and>
         edges (fold (cellEffect values i) js g) =
           edges g @ map (\<lambda>j. \<lparr>origin = i, target = j\<rparr>)
                      (filter (\<lambda>j. toInt (values ! j) = Some 1) js)"
  using assms
proof (induction js arbitrary: g)
  case Nil
  then show ?case by simp
next
  case (Cons j js)
  let ?g = "cellEffect values i j g"
  have len: "length (vertices ?g) = length (vertices g)"
    by (simp add: cellEffect_vertices)
  have adj: "adjacent ?g"
    using Cons.prems by (simp add: cellEffect_adjacent)
  have ih: "adjacent (fold (cellEffect values i) js ?g) \<and>
         map vid (vertices (fold (cellEffect values i) js ?g)) = map vid (vertices ?g) \<and>
         gid (fold (cellEffect values i) js ?g) = gid ?g \<and>
         gtype (fold (cellEffect values i) js ?g) = gtype ?g \<and>
         edges (fold (cellEffect values i) js ?g) =
           edges ?g @ map (\<lambda>j. \<lparr>origin = i, target = j\<rparr>)
                      (filter (\<lambda>j. toInt (values ! j) = Some 1) js)"
    using Cons.prems by (intro Cons.IH adj) (simp_all add: len)
  show ?case
    using ih by (simp add: cellEffect_vertices)
qed

lemma rowEffect_props:
  assumes "adjacent g" "i < length (vertices g)" "length (vertices g) = nat n"
  shows "adjacent (rowEffect lines c n i g)"
    and "map vid (vertices (rowEffect lines c n i g)) = map vid (vertices g)"
    and "gid (rowEffect lines c n i g) = gid g"
    and "gtype (rowEffect lines c n i g) = gtype g"
    and "edges (rowEffect lines c n i g) = edges g @ rowEdges lines c n i"
proof -
  have "\<forall>j \<in> set [0..<nat n]. j < length (vertices g)"
    using assms(3) by simp
  from fold_cellEffect [OF assms(1) assms(2) this]
  show "adjacent (rowEffect lines c n i g)"
    and "map vid (vertices (rowEffect lines c n i g)) = map vid (vertices g)"
    and "gid (rowEffect lines c n i g) = gid g"
    and "gtype (rowEffect lines c n i g) = gtype g"
    and "edges (rowEffect lines c n i g) = edges g @ rowEdges lines c n i"
    unfolding rowEffect_def rowEdges_def by blast+
qed

lemma fold_rowEffect:
  assumes "adjacent g" "length (vertices g) = nat n" "\<forall>i \<in> set is. i < nat n"
  shows "adjacent (fold (rowEffect lines c n) is g) \<and>
         map vid (vertices (fold (rowEffect lines c n) is g)) = map vid (vertices g) \<and>
         gid (fold (rowEffect lines c n) is g) = gid g \<and>
         gtype (fold (rowEffect lines c n) is g) = gtype g \<and>
         edges (fold (rowEffect lines c n) is g) =
           edges g @ concat (map (rowEdges lines c n) is)"
  using assms
proof (induction "is" arbitrary: g)
  case Nil
  then show ?case by simp
next
  case (Cons i "is")
  let ?g = "rowEffect lines c n i g"
  have i: "i < length (vertices g)"
    using Cons.prems by simp
  note step = rowEffect_props [OF Cons.prems(1) i Cons.prems(2), of lines c]
  have len: "length (vertices ?g) = nat n"
    using step(2) Cons.prems(2) by (metis length_map)
  have rest: "\<forall>i \<in> set is. i < nat n"
    using Cons.prems by simp
  from Cons.IH [OF step(1) len rest]
  show ?case
    by (simp add: step)
qed

lemma fold_addVertex:
  "vertices (fold (\<lambda>i. addVertex (f i)) is g) =
     vertices g @ map (\<lambda>i. \<lparr>vid = f i, edgesOut = [], edgesIn = []\<rparr>) is \<and>
   edges (fold (\<lambda>i. addVertex (f i)) is g) = edges g \<and>
   gid (fold (\<lambda>i. addVertex (f i)) is g) = gid g \<and>
   gtype (fold (\<lambda>i. addVertex (f i)) is g) = gtype g"
  by (induction "is" arbitrary: g) (simp_all add: addVertex_def)

lemma createGraph_props:
  "vertices (createGraph gi n) =
     map (\<lambda>i. \<lparr>vid = number (int i), edgesOut = [], edgesIn = []\<rparr>) [0..<nat n]"
  "edges (createGraph gi n) = []"
  "gid (createGraph gi n) = ''graph_'' @ number gi"
  "gtype (createGraph gi n) = DIRECTED"
  unfolding createGraph_def
  by (simp_all add: fold_addVertex setID_def newGraph_def)

lemma createGraph_adjacent: "adjacent (createGraph gi n)"
  by (simp add: adjacent_def createGraph_props)

lemma concat_product:
  "concat (map (\<lambda>i. map (f i) (filter (P i) js)) is) =
     map (\<lambda>(i, j). f i j) (filter (\<lambda>(i, j). P i j) (List.product is js))"
  by (induction "is") (simp_all add: filter_map comp_def)

lemma builtGraph_props:
  "adjacent (builtGraph lines (int s + 1) (int n) gi)"
  "vertices (builtGraph lines (int s + 1) (int n) gi) \<noteq> [] \<or> n = 0"
  "map vid (vertices (builtGraph lines (int s + 1) (int n) gi)) = map (\<lambda>i. number (int i)) [0..<n]"
  "gid (builtGraph lines (int s + 1) (int n) gi) = ''graph_'' @ number gi"
  "gtype (builtGraph lines (int s + 1) (int n) gi) = DIRECTED"
  "edges (builtGraph lines (int s + 1) (int n) gi) = matrixEdges lines s n"
proof -
  let ?g = "createGraph gi (int n)"
  have len: "length (vertices ?g) = nat (int n)"
    by (simp add: createGraph_props)
  have all: "\<forall>i \<in> set [0..<nat (int n)]. i < nat (int n)"
    by simp
  note f = fold_rowEffect [OF createGraph_adjacent len all, of lines "int s + 1"]
  have idx: "nat (int s + 1 + int i) = s + 1 + i" for i
    by linarith
  have re: "rowEdges lines (int s + 1) (int n) =
      (\<lambda>i. map (\<lambda>j. \<lparr>origin = i, target = j\<rparr>)
             (filter (\<lambda>j. matrixCell lines s i j = Some 1) [0..<n]))"
    by (rule ext) (simp add: rowEdges_def matrixCell_def idx)
  show "adjacent (builtGraph lines (int s + 1) (int n) gi)"
    using f by (simp add: builtGraph_def)
  show vs: "map vid (vertices (builtGraph lines (int s + 1) (int n) gi)) = map (\<lambda>i. number (int i)) [0..<n]"
    using f by (simp add: builtGraph_def createGraph_props comp_def)
  show "vertices (builtGraph lines (int s + 1) (int n) gi) \<noteq> [] \<or> n = 0"
    using vs by (cases n) auto
  show "gid (builtGraph lines (int s + 1) (int n) gi) = ''graph_'' @ number gi"
    using f by (simp add: builtGraph_def createGraph_props)
  show "gtype (builtGraph lines (int s + 1) (int n) gi) = DIRECTED"
    using f by (simp add: builtGraph_def createGraph_props)
  have "edges (builtGraph lines (int s + 1) (int n) gi) =
      concat (map (rowEdges lines (int s + 1) (int n)) [0..<n])"
    using f by (simp add: builtGraph_def createGraph_props)
  then show "edges (builtGraph lines (int s + 1) (int n) gi) = matrixEdges lines s n"
    unfolding re concat_product matrixEdges_def by simp
qed

lemma wrap32_id: "- 2147483648 \<le> x \<Longrightarrow> x \<le> 2147483647 \<Longrightarrow> wrap32 x = x"
  by (simp add: wrap32_def)

lemma cellViolation_Nil:
  "cellViolation values gi i j = [] \<longleftrightarrow> toInt (values ! j) = Some 0 \<or> toInt (values ! j) = Some 1"
  by (auto simp add: cellViolation_def split: option.splits)

lemma rowViolations_Nil:
  "rowViolations lines (int s + 1) (int n) gi i = [] \<longleftrightarrow> validRow lines s n i"
proof -
  have idx: "nat (int s + 1 + int i) = s + 1 + i"
    by linarith
  show ?thesis
    by (auto simp add: rowViolations_def validRow_def Let_def idx cellViolation_Nil
          matrixCell_def list_all_iff)
qed

lemma matrixViolations_Nil:
  "matrixViolations lines (int s + 1) (int n) gi = [] \<longleftrightarrow> list_all (validRow lines s n) [0..<n]"
  by (simp add: matrixViolations_def rowViolations_Nil list_all_iff)

lemma case_list_sum:
  "(case (case xs of [] \<Rightarrow> Inr a | e # _ \<Rightarrow> Inl e) of
      Inl e \<Rightarrow> Inl e
    | Inr g \<Rightarrow> Inr (g, k)) =
   (case xs of [] \<Rightarrow> Inr (a, k) | e # _ \<Rightarrow> Inl e)"
  by (cases xs) simp_all

lemma parseSingleGraph_matrix:
  assumes "s < length lines" "toInt (lines ! s) = Some (int n)" "0 < n"
    and "s + n < length lines" "int (length lines) \<le> INT_MAX"
  shows "parseSingleGraph lines (int s) gi =
     (case matrixViolations lines (int s + 1) (int n) gi of
        [] \<Rightarrow> Inr (builtGraph lines (int s + 1) (int n) gi, int s + 1 + int n)
      | e # _ \<Rightarrow> Inl e)"
proof -
  have at_s: "at lines (int s) = Some (lines ! s)"
    using assms(1) by (simp add: at_def)
  have w: "wrap32 (int s + 1 + int n) = int s + 1 + int n"
    using assms(4,5) by (intro wrap32_id) (simp_all add: INT_MAX_def)
  have rng: "\<forall>i \<in> set [0..<n]. 0 \<le> int s + 1 + int i \<and> int s + 1 + int i < int (length lines)"
    using assms(4) by auto
  have "parseSingleGraph lines (int s) gi =
      (case rowLoop lines (int s + 1) (int n) gi [0..<n] (createGraph gi (int n)) of
         Inl e \<Rightarrow> Inl e
       | Inr graph \<Rightarrow> Inr (graph, int s + 1 + int n))"
    using assms(1,2,3,4) by (simp add: parseSingleGraph_def at_s Let_def w split: sum.splits)
  also have "\<dots> = (case matrixViolations lines (int s + 1) (int n) gi of
        [] \<Rightarrow> Inr (builtGraph lines (int s + 1) (int n) gi, int s + 1 + int n)
      | e # _ \<Rightarrow> Inl e)"
    unfolding rowLoop_char [OF rng] matrixViolations_def builtGraph_def nat_int
    by (rule case_list_sum)
  finally show ?thesis .
qed

lemma rowLoop_Inr_at:
  "rowLoop lines c n gi is g = Inr g' \<Longrightarrow> i \<in> set is \<Longrightarrow> at lines (c + int i) \<noteq> None"
proof (induction "is" arbitrary: g)
  case Nil
  then show ?case by simp
next
  case (Cons k ks)
  show ?case
  proof (cases "i = k")
    case True
    then show ?thesis using Cons.prems(1) by (auto split: option.splits)
  next
    case False
    then have "i \<in> set ks" using Cons.prems(2) by simp
    moreover obtain g1 where "rowLoop lines c n gi ks g1 = Inr g'"
      using Cons.prems(1)
      by (auto simp add: Let_def Exception_def split: option.splits if_splits sum.splits)
    ultimately show ?thesis using Cons.IH by blast
  qed
qed

lemma parseSingleGraph_Inr:
  assumes "parseSingleGraph lines startLine gi = Inr (g, nextLine)"
    and "int (length lines) \<le> INT_MAX"
  shows "\<exists>s n. startLine = int s \<and> validBlock lines s n \<and>
           g = builtGraph lines (int s + 1) (int n) gi \<and> nextLine = int s + 1 + int n"
proof -
  from assms(1) have lt: "startLine < int (length lines)"
    by (auto simp add: parseSingleGraph_def Exception_def split: if_splits)
  from assms(1) lt obtain header where hd: "at lines startLine = Some header"
    by (auto simp add: parseSingleGraph_def split: option.splits)
  then have nonneg: "0 \<le> startLine" and header: "header = lines ! nat startLine"
    by (auto simp add: at_def split: if_splits)
  define s where "s = nat startLine"
  have s: "startLine = int s" "s < length lines"
    using nonneg lt by (simp_all add: s_def)
  from assms(1) lt hd obtain vc where vc: "toInt header = Some vc" "0 < vc"
    by (auto simp add: parseSingleGraph_def Exception_def split: option.splits if_splits)
  define n where "n = nat vc"
  have n: "vc = int n" "0 < n"
    using vc by (simp_all add: n_def)
  from assms(1) lt hd vc obtain g0 where
    rl: "rowLoop lines (startLine + 1) vc gi [0..<nat vc] (createGraph gi vc) = Inr g0"
    by (auto simp add: parseSingleGraph_def Exception_def Let_def split: if_splits sum.splits)
  have "n - 1 \<in> set [0..<nat vc]"
    using n by simp
  from rowLoop_Inr_at [OF rl this] have "startLine + 1 + int (n - 1) < int (length lines)"
    by (auto simp add: at_def split: if_splits)
  then have rows: "s + n < length lines"
    using s n by linarith
  have tI: "toInt (lines ! s) = Some (int n)"
    using vc header n s_def by simp
  have eq: "parseSingleGraph lines (int s) gi =
     (case matrixViolations lines (int s + 1) (int n) gi of
        [] \<Rightarrow> Inr (builtGraph lines (int s + 1) (int n) gi, int s + 1 + int n)
      | e # _ \<Rightarrow> Inl e)"
    by (rule parseSingleGraph_matrix [OF s(2) tI n(2) rows assms(2)])
  have mv: "matrixViolations lines (int s + 1) (int n) gi = []"
    using assms(1) eq s(1) by (auto split: list.splits)
  then have "list_all (validRow lines s n) [0..<n]"
    by (simp add: matrixViolations_Nil)
  then have "validBlock lines s n"
    using n rows tI by (simp add: validBlock_def)
  moreover have "g = builtGraph lines (int s + 1) (int n) gi" "nextLine = int s + 1 + int n"
    using assms(1) eq s(1) mv by simp_all
  ultimately show ?thesis using s(1) by blast
qed

lemma parseSingleGraph_valid:
  assumes "validBlock lines s n" "int (length lines) \<le> INT_MAX"
  shows "parseSingleGraph lines (int s) gi =
           Inr (builtGraph lines (int s + 1) (int n) gi, int s + 1 + int n)"
proof -
  have a: "s < length lines" "toInt (lines ! s) = Some (int n)" "0 < n" "s + n < length lines"
    using assms(1) by (simp_all add: validBlock_def)
  have "matrixViolations lines (int s + 1) (int n) gi = []"
    using assms(1) by (simp add: matrixViolations_Nil validBlock_def)
  then show ?thesis
    using parseSingleGraph_matrix [OF a assms(2), of gi] by simp
qed

lemma removeTrailingEmpty_Nil: "removeTrailingEmpty [] = []"
  by (subst removeTrailingEmpty.simps) simp

lemma removeTrailingEmpty_snoc:
  "removeTrailingEmpty (xs @ [x]) = (if x = [] then removeTrailingEmpty xs else xs @ [x])"
  by (subst removeTrailingEmpty.simps) simp

lemma removeTrailingEmpty_rev:
  "removeTrailingEmpty xs = rev (dropWhile (\<lambda>l. l = []) (rev xs))"
  by (induction xs rule: rev_induct) (simp_all add: removeTrailingEmpty_Nil removeTrailingEmpty_snoc)

lemma removeTrailingEmpty_length: "length (removeTrailingEmpty xs) \<le> length xs"
  by (simp add: removeTrailingEmpty_rev length_dropWhile_le [of _ "rev xs", simplified])

lemma removeTrailingEmpty_append:
  "removeTrailingEmpty ys \<noteq> [] \<Longrightarrow> removeTrailingEmpty (xs @ ys) = xs @ removeTrailingEmpty ys"
  by (auto simp add: removeTrailingEmpty_rev dropWhile_append)

lemma splitKeep_not_Nil: "splitKeep sep s \<noteq> []"
  by (induction s) simp_all

lemma split_length: "length (split sep s) \<le> length s"
proof (induction s)
  case Nil
  show ?case by (simp add: split_def)
next
  case (Cons c cs)
  obtain p ps where r: "splitKeep sep cs = p # ps"
    using splitKeep_not_Nil by (cases "splitKeep sep cs") auto
  show ?case
    using Cons.IH by (auto simp add: split_def r split: if_splits)
qed

lemma lineStream_length: "length (lineStream data) \<le> length data"
proof -
  have "length (lineStream data) \<le> length (map trimmed (split CHR 0x0A data))"
    unfolding lineStream_def by (rule removeTrailingEmpty_length)
  also have "\<dots> \<le> length data"
    by (simp add: split_length)
  finally show ?thesis .
qed

lemma splitKeep_no_sep: "sep \<notin> set l \<Longrightarrow> splitKeep sep l = [l]"
  by (induction l) auto

lemma splitKeep_append:
  "sep \<notin> set l \<Longrightarrow> splitKeep sep (l @ sep # r) = l # splitKeep sep r"
  by (induction l) auto

lemma splitKeep_joinLines:
  assumes "\<forall>l \<in> set ls. CHR 0x0A \<notin> set l" "ls \<noteq> []"
  shows "splitKeep CHR 0x0A (joinLines ls) = ls"
  using assms
proof (induction ls rule: joinLines.induct)
  case 1
  then show ?case by simp
next
  case (2 l)
  then show ?case by (simp add: splitKeep_no_sep)
next
  case (3 l k ks)
  then show ?case by (simp add: splitKeep_append)
qed

lemma split_joinLines:
  assumes "\<forall>l \<in> set ls. CHR 0x0A \<notin> set l"
  shows "split CHR 0x0A (joinLines ls) = filter (\<lambda>l. l \<noteq> []) ls"
proof (cases "ls = []")
  case True
  then show ?thesis by (simp add: split_def)
next
  case False
  then show ?thesis using assms by (simp add: split_def splitKeep_joinLines)
qed

lemma lineStream_joinLines:
  assumes "\<forall>l \<in> set ls. CHR 0x0A \<notin> set l"
  shows "lineStream (joinLines ls) = removeTrailingEmpty (map trimmed (filter (\<lambda>l. l \<noteq> []) ls))"
  by (simp add: lineStream_def split_joinLines [OF assms])

lemma parseSingleGraph_invalidCount:
  assumes "s < length lines" "invalidCount (lines ! s)"
  shows "parseSingleGraph lines (int s) gi = Inl (InvalidVertexCount (lines ! s) (gi + 1))"
  using assms
  by (auto simp add: parseSingleGraph_def at_def invalidCount_def Exception_def
        split: option.splits)

lemma split_single:
  assumes "sep \<notin> set l"
  shows "length (split sep l) \<le> 1" "length (split sep (l @ [sep])) \<le> 1"
proof -
  show "length (split sep l) \<le> 1"
    using assms by (simp add: split_def splitKeep_no_sep)
  have "splitKeep sep (l @ sep # []) = l # splitKeep sep []"
    using assms by (rule splitKeep_append)
  then show "length (split sep (l @ [sep])) \<le> 1"
    by (simp add: split_def)
qed

lemma lineStream_le_split: "length (lineStream data) \<le> length (split CHR 0x0A data)"
  unfolding lineStream_def
  using removeTrailingEmpty_length [of "map trimmed (split CHR 0x0A data)"] by simp

lemma matrixEdges_distinct: "distinct (matrixEdges lines s n)"
proof -
  have "inj (\<lambda>(i :: nat, j :: nat). \<lparr>origin = i, target = j\<rparr>)"
    by (rule injI) auto
  then have "inj_on (\<lambda>(i :: nat, j :: nat). \<lparr>origin = i, target = j\<rparr>) A" for A
    by (rule inj_on_subset) simp
  then show ?thesis
    unfolding matrixEdges_def by (simp add: distinct_map distinct_product)
qed

lemma matrixEdges_set:
  "set (matrixEdges lines s n) =
     {\<lparr>origin = i, target = j\<rparr> | i j. i < n \<and> j < n \<and> matrixCell lines s i j = Some 1}"
  unfolding matrixEdges_def by auto

lemma builtGraph_represents:
  "representsMatrix lines s n (builtGraph lines (int s + 1) (int n) gi)"
proof -
  let ?g = "builtGraph lines (int s + 1) (int n) gi"
  note p = builtGraph_props [of lines s n gi]
  have len: "length (vertices ?g) = n"
    using p(3) by (metis length_map length_upt diff_zero)
  have adj: "\<forall>v < n. edgesOut (vertices ?g ! v) = filter (\<lambda>e. origin e = v) (edges ?g) \<and>
              edgesIn (vertices ?g ! v) = filter (\<lambda>e. target e = v) (edges ?g)"
    using p(1) len by (simp add: adjacent_def)
  show ?thesis
    unfolding representsMatrix_def
    using len p(3) adj by (simp add: p(6) matrixEdges_distinct matrixEdges_set)
qed

lemma parseLines_unfold:
  "2 \<le> length lines \<Longrightarrow>
   parseLines lines =
     (case parseSingleGraph lines 0 0 of
        Inl e \<Rightarrow> Inl e
      | Inr (graph1, nextLine) \<Rightarrow>
          (case parseSingleGraph lines nextLine 1 of
             Inl e \<Rightarrow> Inl e
           | Inr (graph2, _) \<Rightarrow> Inr (graph1, graph2)))"
  by (simp add: parseLines_def)

lemma validBlock_two: "validBlock lines s n \<Longrightarrow> 2 \<le> length lines"
  by (simp add: validBlock_def)

lemma parseLines_valid:
  assumes "int (length lines) \<le> INT_MAX"
    and "validBlock lines 0 n1" "validBlock lines (1 + n1) n2"
  shows "parseLines lines =
     Inr (builtGraph lines 1 (int n1) 0, builtGraph lines (int (1 + n1) + 1) (int n2) 1)"
proof -
  have p1: "parseSingleGraph lines 0 0 = Inr (builtGraph lines 1 (int n1) 0, int (1 + n1))"
    using parseSingleGraph_valid [OF assms(2,1), of 0] by simp
  have p2: "parseSingleGraph lines (int (1 + n1)) 1 =
      Inr (builtGraph lines (int (1 + n1) + 1) (int n2) 1, int (1 + n1) + 1 + int n2)"
    by (rule parseSingleGraph_valid [OF assms(3,1)])
  show ?thesis
    unfolding parseLines_unfold [OF validBlock_two [OF assms(2)]] p1 using p2 by simp
qed

lemma parseLines_Inr:
  assumes "int (length lines) \<le> INT_MAX"
    and "parseLines lines = Inr (g1, g2)"
  shows "\<exists>n1 n2. validBlock lines 0 n1 \<and> validBlock lines (1 + n1) n2 \<and>
           parseSingleGraph lines 0 0 = Inr (g1, int (1 + n1)) \<and>
           parseSingleGraph lines (int (1 + n1)) 1 = Inr (g2, int (1 + n1) + 1 + int n2) \<and>
           g1 = builtGraph lines 1 (int n1) 0 \<and>
           g2 = builtGraph lines (int (1 + n1) + 1) (int n2) 1"
proof -
  have two: "2 \<le> length lines"
    using assms(2) by (auto simp add: parseLines_def Exception_def split: if_splits)
  from assms(2) obtain k where p1: "parseSingleGraph lines 0 0 = Inr (g1, k)"
    unfolding parseLines_unfold [OF two] by (auto split: sum.splits prod.splits)
  from assms(2) p1 obtain k' where p2: "parseSingleGraph lines k 1 = Inr (g2, k')"
    unfolding parseLines_unfold [OF two] by (auto split: sum.splits prod.splits)
  from parseSingleGraph_Inr [OF p1 assms(1)] obtain s1 n1 where
    b1: "(0::int) = int s1" "validBlock lines s1 n1" "g1 = builtGraph lines (int s1 + 1) (int n1) 0"
      "k = int s1 + 1 + int n1"
    by blast
  from parseSingleGraph_Inr [OF p2 assms(1)] obtain s2 n2 where
    b2: "k = int s2" "validBlock lines s2 n2" "g2 = builtGraph lines (int s2 + 1) (int n2) 1"
      "k' = int s2 + 1 + int n2"
    by blast
  have s1: "s1 = 0" using b1(1) by simp
  have s2: "s2 = 1 + n1" using b1(4) b2(1) s1 by linarith
  show ?thesis
    using b1 b2 p1 p2 unfolding s1 s2 by (intro exI [of _ n1] exI [of _ n2]) simp
qed

lemma lineStream_INT_MAX:
  "int (length data) \<le> INT_MAX \<Longrightarrow> int (length (lineStream data)) \<le> INT_MAX"
  using lineStream_length [of data] by linarith

lemma concat_map_first:
  assumes "i < n" "\<forall>k < i. f k = []"
  shows "concat (map f [0..<n]) = f i @ concat (map f [Suc i..<n])"
proof -
  have "[0..<n] = [0..<i] @ i # [Suc i..<n]"
    using assms(1) by (metis less_imp_add_positive upt_add_eq_append upt_conv_Cons zero_le add_0)
  moreover have "concat (map f [0..<i]) = []"
    using assms(2) by simp
  ultimately show ?thesis by simp
qed


lemma matrixViolations_row:
  assumes "i < n" "list_all (validRow lines s n) [0..<i]"
  shows "matrixViolations lines (int s + 1) (int n) gi =
           rowViolations lines (int s + 1) (int n) gi i @
           concat (map (rowViolations lines (int s + 1) (int n) gi) [Suc i..<n])"
proof -
  have "\<forall>k < i. rowViolations lines (int s + 1) (int n) gi k = []"
    using assms(2) by (simp add: rowViolations_Nil list_all_iff)
  from concat_map_first [OF assms(1) this]
  show ?thesis by (simp add: matrixViolations_def)
qed

lemma rowViolations_length:
  assumes "length (split CHR '' '' (lines ! (s + 1 + i))) \<noteq> n"
  shows "rowViolations lines (int s + 1) (int n) gi i =
     [RowLengthMismatch (int i + 1) (gi + 1)
        (int (length (split CHR '' '' (lines ! (s + 1 + i))))) (int n)]"
proof -
  have idx: "nat (int s + 1 + int i) = s + 1 + i"
    by linarith
  show ?thesis
    using assms by (simp add: rowViolations_def Let_def idx)
qed


lemma parseSingleGraph_first:
  assumes "int (length lines) \<le> INT_MAX"
    and "toInt (lines ! s) = Some (int n)" "s + n < length lines" "0 < n"
    and "matrixViolations lines (int s + 1) (int n) gi = e # es"
  shows "parseSingleGraph lines (int s) gi = Inl e"
proof -
  have "s < length lines" using assms(3) by simp
  from parseSingleGraph_matrix [OF this assms(2,4,3,1), of gi]
  show ?thesis by (simp add: assms(5))
qed

lemma parseSingleGraph_not_Inr:
  assumes "int (length lines) \<le> INT_MAX"
    and "toInt (lines ! s) = Some (int n)" "i < n" "\<not> validRow lines s n i"
  shows "parseSingleGraph lines (int s) gi \<noteq> Inr (g, k)"
proof
  assume "parseSingleGraph lines (int s) gi = Inr (g, k)"
  from parseSingleGraph_Inr [OF this assms(1)] obtain s' n' where
    b: "int s = int s'" "validBlock lines s' n'"
    by blast
  have "s' = s" using b(1) by simp
  then have "n' = n" "list_all (validRow lines s n') [0..<n']"
    using b(2) assms(2) by (simp_all add: validBlock_def)
  then show False
    using assms(3,4) by (simp add: list_all_iff)
qed

lemma matrixCell_take:
  "s + 1 + i < k \<Longrightarrow> matrixCell (take k lines) s i j = matrixCell lines s i j"
  by (simp add: matrixCell_def)

lemma validRow_take:
  "s + 1 + i < k \<Longrightarrow> validRow (take k lines) s n i = validRow lines s n i"
  by (simp add: validRow_def matrixCell_take)

lemma validBlock_take:
  assumes "validBlock lines s n" "s + n < k"
  shows "validBlock (take k lines) s n"
proof -
  have "\<forall>i \<in> set [0..<n]. validRow (take k lines) s n i = validRow lines s n i"
    using assms(2) by (simp add: validRow_take)
  then have "list_all (validRow (take k lines) s n) [0..<n] = list_all (validRow lines s n) [0..<n]"
    by (simp add: list_all_iff)
  then show ?thesis
    using assms by (simp add: validBlock_def)
qed

lemma rowEffect_take:
  assumes "s + 1 + i < k"
  shows "rowEffect (take k lines) (int s + 1) n i = rowEffect lines (int s + 1) n i"
proof -
  have idx: "nat (int s + 1 + int i) = s + 1 + i"
    by linarith
  have "take k lines ! (s + 1 + i) = lines ! (s + 1 + i)"
    using assms by (rule nth_take)
  then show ?thesis
    by (intro ext) (simp only: rowEffect_def idx)
qed

lemma builtGraph_take:
  assumes "s + n < k"
  shows "builtGraph (take k lines) (int s + 1) (int n) gi = builtGraph lines (int s + 1) (int n) gi"
proof -
  have "fold (rowEffect (take k lines) (int s + 1) (int n)) [0..<n] g =
      fold (rowEffect lines (int s + 1) (int n)) [0..<n] g" for g
    using assms by (intro fold_cong) (simp_all add: rowEffect_take)
  then show ?thesis
    by (simp add: builtGraph_def)
qed

lemma toInt_Nil: "toInt [] = None"
  by (simp add: toInt_def trimmed_def)

lemma split_Nil: "split sep [] = []"
  by (simp add: split_def)

lemma validBlock_no_blank:
  assumes "validBlock lines s n" "s \<le> k" "k \<le> s + n"
  shows "lines ! k \<noteq> []"
proof (cases "k = s")
  case True
  then show ?thesis
    using assms(1) toInt_Nil by (auto simp add: validBlock_def)
next
  case False
  define i where "i = k - s - 1"
  have i: "i < n" "k = s + 1 + i"
    using False assms(2,3) by (simp_all add: i_def)
  have "validRow lines s n i"
    using assms(1) i(1) by (simp add: validBlock_def list_all_iff)
  then have "length (split CHR '' '' (lines ! k)) = n"
    using i(2) by (simp add: validRow_def)
  moreover have "0 < n" using i(1) by simp
  ultimately show ?thesis
    using split_Nil by (metis list.size(3) less_numeral_extra(3))
qed

lemma parseSingleGraph_end:
  assumes "length lines \<le> s"
  shows "parseSingleGraph lines (int s) gi = Inl (UnexpectedEndOfInput (gi + 1))"
  using assms by (simp add: parseSingleGraph_def Exception_def)

lemma parseSingleGraph_rows_missing:
  assumes "s < length lines" "toInt (lines ! s) = Some N" "0 < N"
    and "int (length lines) < int s + 1 + N" "int s + 1 + N \<le> INT_MAX"
  shows "parseSingleGraph lines (int s) gi = Inl (InsufficientMatrixRows (gi + 1))"
proof -
  have at_s: "at lines (int s) = Some (lines ! s)"
    using assms(1) by (simp add: at_def)
  have w: "wrap32 (int s + 1 + N) = int s + 1 + N"
    using assms(3,5) by (intro wrap32_id) (simp_all add: INT_MAX_def)
  show ?thesis
    using assms(1,2,3,4) by (simp add: parseSingleGraph_def at_s Let_def w Exception_def)
qed

lemma parseSingleGraph_blockViolations:
  assumes "int (length lines) \<le> INT_MAX" "noOverflow lines s"
  shows "parseSingleGraph lines (int s) gi =
     (case blockViolations lines s gi of
        [] \<Rightarrow> Inr (builtGraph lines (int s + 1) (the (toInt (lines ! s))) gi,
                  int s + 1 + the (toInt (lines ! s)))
      | e # _ \<Rightarrow> Inl e)"
proof (cases "length lines \<le> s")
  case True
  then show ?thesis
    using parseSingleGraph_end [OF True, of gi] by (simp add: blockViolations_def)
next
  case False
  then have s: "s < length lines" by simp
  show ?thesis
  proof (cases "invalidCount (lines ! s)")
    case True
    then show ?thesis
      using parseSingleGraph_invalidCount [OF s True, of gi] s
      by (simp add: blockViolations_def)
  next
    case valid: False
    then obtain N where N: "toInt (lines ! s) = Some N" "0 < N"
      by (auto simp add: invalidCount_def split: option.splits)
    have th: "the (toInt (lines ! s)) = N"
      by (simp add: N)
    have no: "int s + 1 + N \<le> INT_MAX"
      using assms(2) N s by (simp add: noOverflow_def)
    show ?thesis
    proof (cases "int (length lines) < int s + 1 + N")
      case True
      have bv: "blockViolations lines s gi = [InsufficientMatrixRows (gi + 1)]"
        using s valid True by (simp add: blockViolations_def th)
      show ?thesis
        unfolding bv using parseSingleGraph_rows_missing [OF s N True no, of gi] by simp
    next
      case False
      define n where "n = nat N"
      have n: "N = int n" "0 < n"
        using N(2) by (simp_all add: n_def)
      have rows: "s + n < length lines"
        using False n by linarith
      have t: "toInt (lines ! s) = Some (int n)"
        using N n by simp
      have bv: "blockViolations lines s gi = matrixViolations lines (int s + 1) (int n) gi"
        using s valid False by (simp add: blockViolations_def th n(1) [symmetric])
      show ?thesis
        unfolding bv th n(1)
        by (rule parseSingleGraph_matrix [OF s t n(2) rows assms(1)])
    qed
  qed
qed

lemma parseLines_reached_Inl:
  assumes "int (length lines) \<le> INT_MAX" "2 \<le> length lines"
    and "reachedBlock lines s gi" "parseSingleGraph lines (int s) gi = Inl e"
  shows "parseLines lines = Inl e"
proof (cases "s = 0")
  case True
  then have "gi = 0"
    using assms(3) unfolding reachedBlock_def by blast
  then have "parseSingleGraph lines 0 0 = Inl e"
    using assms(4) True by simp
  then show ?thesis
    unfolding parseLines_unfold [OF assms(2)] by simp
next
  case False
  then have v: "validBlock lines 0 (s - 1)" and gi: "gi = 1"
    using assms(3) unfolding reachedBlock_def by blast+
  have s: "int 0 + 1 + int (s - 1) = int s"
    using False by linarith
  have p1: "parseSingleGraph lines 0 0 = Inr (builtGraph lines 1 (int (s - 1)) 0, int s)"
    using parseSingleGraph_valid [OF v assms(1), of 0] unfolding s by simp
  have p2: "parseSingleGraph lines (int s) 1 = Inl e"
    using assms(4) gi by blast
  have "(case Inr (builtGraph lines 1 (int (s - 1)) 0, int s) of
          Inl e \<Rightarrow> Inl e
        | Inr (graph1, nextLine) \<Rightarrow>
            (case parseSingleGraph lines nextLine 1 of
               Inl e \<Rightarrow> Inl e
             | Inr (graph2, _) \<Rightarrow> Inr (graph1, graph2))) = Inl e"
    by (simp only: sum.case prod.case p2)
  then show ?thesis
    unfolding parseLines_unfold [OF assms(2)] p1 .
qed

lemma validBlock_count: "validBlock lines s n \<Longrightarrow> toInt (lines ! s) = Some (int n)"
  unfolding validBlock_def by blast

lemma parseLines_reached_Inr:
  assumes "int (length lines) \<le> INT_MAX"
    and "reachedBlock lines s gi" "parseLines lines = Inr (g1, g2)"
  shows "\<exists>g k. parseSingleGraph lines (int s) gi = Inr (g, k)"
proof -
  from parseLines_Inr [OF assms(1,3)] obtain n1 n2 where
    b: "validBlock lines 0 n1"
      "parseSingleGraph lines 0 0 = Inr (g1, int (1 + n1))"
      "parseSingleGraph lines (int (1 + n1)) 1 = Inr (g2, int (1 + n1) + 1 + int n2)"
    by blast
  show ?thesis
  proof (cases "s = 0")
    case True
    then have "gi = 0"
      using assms(2) unfolding reachedBlock_def by blast
    then have "parseSingleGraph lines (int s) gi = Inr (g1, int (1 + n1))"
      using b(2) True by simp
    then show ?thesis by blast
  next
    case False
    then have v: "validBlock lines 0 (s - 1)" and gi: "gi = 1"
      using assms(2) unfolding reachedBlock_def by blast+
    have "Some (int (s - 1)) = Some (int n1)"
      using validBlock_count [OF v] validBlock_count [OF b(1)] by (rule trans [OF sym])
    then have "int s = int (1 + n1)"
      using False by simp
    then have "parseSingleGraph lines (int s) gi = Inr (g2, int (1 + n1) + 1 + int n2)"
      using b(3) gi by simp
    then show ?thesis by blast
  qed
qed

subsection \<open>Place markers and messages\<close>

lemma pieces_Cons_other: "c \<noteq> CHR ''%'' \<Longrightarrow> pieces (c # cs) = Text c # pieces cs"
  by simp

declare pieces.simps(2) [simp del]

lemma pieces_text: "concat (map pieceText (pieces s)) = s"
proof (induction s rule: pieces.induct)
  case 1
  show ?case by simp
next
  case (2 c cs)
  show ?case
  proof (cases "c \<noteq> CHR ''%''")
    case True
    then show ?thesis
      using "2.IH"(1) by (simp add: pieces_Cons_other pieceText_def)
  next
    case False
    then have c: "c = CHR ''%''" by simp
    show ?thesis
    proof (cases cs)
      case Nil
      then show ?thesis
        by (simp add: pieces.simps(2) pieceText_def)
    next
      case (Cons d ds)
      show ?thesis
      proof (cases "d = CHR ''L''")
        case L: True
        show ?thesis
        proof (cases ds)
          case Nil
          then show ?thesis
            using c Cons L by (simp add: pieces.simps(2) pieceText_def)
        next
          case ds: (Cons e es)
          show ?thesis
          proof (cases "isDigit e")
            case e: True
            show ?thesis
            proof (cases es)
              case Nil
              then show ?thesis
                using c Cons L ds e by (simp add: pieces.simps(2) pieceText_def)
            next
              case es: (Cons f fs)
              show ?thesis
              proof (cases "isDigit f")
                case True
                then show ?thesis
                  using c Cons L ds e es "2.IH"(2) [OF _ Cons L ds e es True]
                  by (simp add: pieces.simps(2) [of "CHR 0x25"] pieceText_def)
              next
                case False
                then show ?thesis
                  using c Cons L ds e es "2.IH"(3) [OF _ Cons L ds e es False]
                  by (simp add: pieces.simps(2) [of "CHR 0x25"] pieceText_def)
              qed
            qed
          next
            case e: False
            then show ?thesis
              using c Cons L ds "2.IH"(4) [OF _ Cons L ds e]
              by (simp add: pieces.simps(2) [of "CHR 0x25"] pieceText_def)
          qed
        qed
      next
        case L: False
        show ?thesis
        proof (cases "isDigit d")
          case d: True
          show ?thesis
          proof (cases ds)
            case Nil
            then show ?thesis
              using c Cons L d by (simp add: pieces.simps(2) pieceText_def)
          next
            case ds: (Cons f fs)
            show ?thesis
            proof (cases "isDigit f")
              case True
              then show ?thesis
                using c Cons L d ds "2.IH"(5) [OF _ Cons L d ds True]
                by (simp add: pieces.simps(2) [of "CHR 0x25"] pieceText_def)
            next
              case False
              then show ?thesis
                using c Cons L d ds "2.IH"(6) [OF _ Cons L d ds False]
                by (simp add: pieces.simps(2) [of "CHR 0x25"] pieceText_def)
            qed
          qed
        next
          case d: False
          then show ?thesis
            using c Cons L "2.IH"(7) [OF _ Cons L d]
            by (simp add: pieces.simps(2) [of "CHR 0x25"] pieceText_def)
        qed
      qed
    qed
  qed
qed

lemma pieces_no_percent:
  "CHR ''%'' \<notin> set xs \<Longrightarrow> pieces (xs @ ys) = map Text xs @ pieces ys"
  by (induction xs) (auto simp add: pieces_Cons_other)

lemma pieces_marker:
  assumes "isDigit d" "post = [] \<or> \<not> isDigit (hd post)"
  shows "pieces (CHR ''%'' # d # post) = Marker (nat (digitValue d)) [CHR ''%'', d] # pieces post"
proof -
  have "d \<noteq> CHR ''L''"
    using assms(1) by (auto simp add: isDigit_def)
  then show ?thesis
    using assms by (cases post) (simp_all add: pieces.simps(2) [of "CHR ''%''"])
qed

lemma fold_min_least: "\<forall>k \<in> set ks. m \<le> k \<Longrightarrow> fold min ks (m :: nat) = m"
  by (induction ks) (simp_all add: min_absorb2)

lemma substitute_other:
  assumes "\<forall>k \<in> set (markerNumbers ps). m < k"
  shows "concat (map (substitute m a) ps) = concat (map pieceText ps)"
  using assms
proof (induction ps)
  case Nil
  show ?case by simp
next
  case (Cons p ps)
  have "substitute m a p = pieceText p"
    using Cons.prems by (cases p) (auto simp add: substitute_def pieceText_def markerNumbers_def)
  moreover have "\<forall>k \<in> set (markerNumbers ps). m < k"
    using Cons.prems by (simp add: markerNumbers_def)
  ultimately show ?case
    using Cons.IH by simp
qed

lemma substitute_texts: "concat (map (substitute m a \<circ> Text) xs) = xs"
  by (induction xs) (simp_all add: substitute_def)

lemma markerNumbers_texts: "markerNumbers (map Text xs @ ps) = markerNumbers ps"
  by (induction xs) (simp_all add: markerNumbers_def)

lemma arg_marker:
  assumes "CHR ''%'' \<notin> set pre" "isDigit d" "post = [] \<or> \<not> isDigit (hd post)"
    and "\<forall>k \<in> set (markerNumbers (pieces post)). nat (digitValue d) < k"
  shows "arg (pre @ CHR ''%'' # d # post) a = pre @ a @ post"
proof -
  let ?m = "nat (digitValue d)"
  have ps: "pieces (pre @ CHR ''%'' # d # post) =
      map Text pre @ Marker ?m [CHR ''%'', d] # pieces post"
    by (simp add: pieces_no_percent [OF assms(1)] pieces_marker [OF assms(2,3)])
  have ks: "markerNumbers (pieces (pre @ CHR ''%'' # d # post)) = ?m # markerNumbers (pieces post)"
    unfolding ps markerNumbers_texts by (simp add: markerNumbers_def)
  have low: "fold min (?m # markerNumbers (pieces post)) ?m = ?m"
    using assms(4) by (intro fold_min_least) auto
  have "arg (pre @ CHR ''%'' # d # post) a =
      concat (map (substitute ?m a) (map Text pre @ Marker ?m [CHR ''%'', d] # pieces post))"
    unfolding arg_def Let_def ks using low by (simp add: ps)
  also have "\<dots> = pre @ a @ concat (map (substitute ?m a) (pieces post))"
    by (simp add: substitute_texts) (simp add: substitute_def)
  also have "\<dots> = pre @ a @ post"
    by (simp add: substitute_other [OF assms(4)] pieces_text)
  finally show ?thesis .
qed

lemma digits_no_percent: "CHR ''%'' \<notin> set (digits n)"
proof (induction n rule: digits.induct)
  case (1 n)
  have c: "char_of (48 + k) \<noteq> CHR ''%''" if "k < 10" for k :: nat
  proof
    assume "char_of (48 + k) = CHR ''%''"
    then have "of_char (char_of (48 + k)) = (of_char CHR ''%'' :: nat)"
      by simp
    then show False
      using that by simp
  qed
  show ?case
  proof (cases "n < 10")
    case True
    then show ?thesis
      using c [of n] by (subst digits.simps) simp
  next
    case False
    then show ?thesis
      using "1.IH" c [of "n mod 10"] by (subst digits.simps) simp
  qed
qed

lemma number_no_percent: "CHR ''%'' \<notin> set (number n)"
  by (simp add: number_def digits_no_percent)

lemma arg_place:
  assumes "s = pre @ CHR ''%'' # d # post"
    and "CHR ''%'' \<notin> set pre" "isDigit d" "post = [] \<or> \<not> isDigit (hd post)"
    and "\<forall>k \<in> set (markerNumbers (pieces post)). nat (digitValue d) < k"
  shows "arg s a = pre @ a @ post"
  unfolding assms(1) by (rule arg_marker [OF assms(2-5)])


lemma rowLength_message:
  "RowLengthMismatch row block found expected = Message (rowLengthText row block found expected)"
proof -
  let ?r = "number row" and ?b = "number block" and ?f = "number found" and ?e = "number expected"
  have m1: "\<forall>k \<in> set (markerNumbers (pieces '' of graph %2 has %3 values, expected %4'')).
      nat (digitValue CHR ''1'') < k"
    by code_simp
  have m2: "\<forall>k \<in> set (markerNumbers (pieces '' has %3 values, expected %4'')).
      nat (digitValue CHR ''2'') < k"
    by code_simp
  have m3: "\<forall>k \<in> set (markerNumbers (pieces '' values, expected %4'')).
      nat (digitValue CHR ''3'') < k"
    by code_simp
  have m4: "\<forall>k \<in> set (markerNumbers (pieces [])). nat (digitValue CHR ''4'') < k"
    by code_simp
  have 1: "arg ''Adjacency matrix row %1 of graph %2 has %3 values, expected %4'' ?r =
      ''Adjacency matrix row '' @ ?r @ '' of graph %2 has %3 values, expected %4''"
    by (rule arg_place [OF _ _ _ _ m1]) (simp_all add: isDigit_def)
  have 2: "arg (''Adjacency matrix row '' @ ?r @ '' of graph %2 has %3 values, expected %4'') ?b =
      (''Adjacency matrix row '' @ ?r @ '' of graph '') @ ?b @ '' has %3 values, expected %4''"
    by (rule arg_place [OF _ _ _ _ m2]) (simp_all add: isDigit_def number_no_percent)
  have 3: "arg ((''Adjacency matrix row '' @ ?r @ '' of graph '') @ ?b @
        '' has %3 values, expected %4'') ?f =
      (''Adjacency matrix row '' @ ?r @ '' of graph '' @ ?b @ '' has '') @ ?f @
        '' values, expected %4''"
    by (rule arg_place [OF _ _ _ _ m3]) (simp_all add: isDigit_def number_no_percent)
  have 4: "arg ((''Adjacency matrix row '' @ ?r @ '' of graph '' @ ?b @ '' has '') @ ?f @
        '' values, expected %4'') ?e =
      (''Adjacency matrix row '' @ ?r @ '' of graph '' @ ?b @ '' has '' @ ?f @
        '' values, expected '') @ ?e @ []"
    by (rule arg_place [OF _ _ _ _ m4]) (simp_all add: isDigit_def number_no_percent)
  show ?thesis
    unfolding RowLengthMismatch_def rowLengthText_def 1 2 3 4 by simp
qed




lemma missingRows_message:
  "InsufficientMatrixRows block =
     Message (''Not enough lines for adjacency matrix of graph '' @ number block)"
proof -
  have "arg (''Not enough lines for adjacency matrix of graph '' @ CHR ''%'' # CHR ''1'' # [])
      (number block) = ''Not enough lines for adjacency matrix of graph '' @ number block @ []"
    by (intro arg_marker) (simp_all add: isDigit_def markerNumbers_def)
  then show ?thesis
    by (simp add: InsufficientMatrixRows_def)
qed

lemma endOfInput_message:
  "UnexpectedEndOfInput block =
     Message (''Unexpected end of file while parsing graph '' @ number block)"
proof -
  have "arg (''Unexpected end of file while parsing graph '' @ CHR ''%'' # CHR ''1'' # [])
      (number block) = ''Unexpected end of file while parsing graph '' @ number block @ []"
    by (intro arg_marker) (simp_all add: isDigit_def markerNumbers_def)
  then show ?thesis
    by (simp add: UnexpectedEndOfInput_def)
qed

subsection \<open>A count that leaves the range of int\<close>

lemma rowLoop_outside:
  assumes "0 < N" "at lines c = None"
  shows "rowLoop lines c N gi [0..<nat N] g = Inl IndexOutOfRange"
proof -
  have "[0..<nat N] = 0 # [Suc 0..<nat N]"
    using assms(1) by (simp add: upt_conv_Cons)
  then show ?thesis
    using assms(2) by simp
qed

lemma parseSingleGraph_wrapped:
  assumes "s < length lines" "toInt (lines ! s) = Some N" "0 < N"
    and "wrap32 (int s + 1 + N) \<le> int (length lines)" "length lines \<le> s + 1"
  shows "parseSingleGraph lines (int s) gi = Inl IndexOutOfRange"
proof -
  have at_s: "at lines (int s) = Some (lines ! s)"
    using assms(1) by (simp add: at_def)
  have "at lines (int s + 1) = None"
    using assms(5) by (simp add: at_def)
  from rowLoop_outside [OF assms(3) this]
  have "rowLoop lines (int s + 1) N gi [0..<nat N] (createGraph gi N) = Inl IndexOutOfRange" .
  then show ?thesis
    using assms(1,2,3,4) by (simp add: parseSingleGraph_def at_s Let_def)
qed

subsection \<open>Blank lines\<close>

lemma trimmed_blank:
  assumes "list_all isSpace w"
  shows "trimmed w = []"
proof -
  have d: "dropWhile isSpace w = []"
    using assms by (simp add: list_all_iff)
  show ?thesis
    unfolding trimmed_def d by simp
qed

lemma last_dropWhile:
  assumes "dropWhile P xs \<noteq> []"
  shows "last (dropWhile P xs) = last xs"
proof -
  have "last xs = last (takeWhile P xs @ dropWhile P xs)"
    by simp
  also have "\<dots> = last (dropWhile P xs)"
    using assms by (rule last_appendR)
  finally show ?thesis ..
qed

lemma trimmed_ends:
  assumes "trimmed s \<noteq> []"
  shows "\<not> isSpace (hd (trimmed s))" "\<not> isSpace (last (trimmed s))"
proof -
  let ?D = "dropWhile isSpace s"
  let ?X = "dropWhile isSpace (rev ?D)"
  have X: "?X \<noteq> []"
    using assms by (simp add: trimmed_def)
  have D: "?D \<noteq> []"
  proof
    assume d: "?D = []"
    have "?X = []"
      unfolding d by simp
    then show False
      using X by simp
  qed
  have "last (trimmed s) = hd ?X"
    using X by (simp add: trimmed_def last_rev)
  then show "\<not> isSpace (last (trimmed s))"
    using hd_dropWhile [OF X] by simp
  have "hd (trimmed s) = last ?X"
    using X by (simp add: trimmed_def hd_rev)
  also have "\<dots> = last (rev ?D)"
    using X by (rule last_dropWhile)
  also have "\<dots> = hd ?D"
    using D by (simp add: last_rev)
  finally show "\<not> isSpace (hd (trimmed s))"
    using hd_dropWhile [OF D] by simp
qed

lemma removeTrailingEmpty_last:
  assumes "removeTrailingEmpty xs \<noteq> []"
  shows "last (removeTrailingEmpty xs) \<noteq> []"
proof -
  let ?X = "dropWhile (\<lambda>l. l = []) (rev xs)"
  have X: "?X \<noteq> []"
    using assms by (simp add: removeTrailingEmpty_rev)
  then have "last (removeTrailingEmpty xs) = hd ?X"
    by (simp add: removeTrailingEmpty_rev last_rev)
  then show ?thesis
    using hd_dropWhile [OF X] by simp
qed

lemma removeTrailingEmpty_set: "set (removeTrailingEmpty xs) \<subseteq> set xs"
  using set_dropWhileD [of _ "\<lambda>l. l = []" "rev xs"] by (auto simp add: removeTrailingEmpty_rev)

lemma removeTrailingEmpty_blank:
  assumes "\<forall>l \<in> set ys. l = []"
  shows "removeTrailingEmpty (xs @ ys) = removeTrailingEmpty xs"
proof -
  have "dropWhile (\<lambda>l. l = []) (rev ys @ rev xs) = dropWhile (\<lambda>l. l = []) (rev xs)"
    using assms by (intro dropWhile_append2) simp
  then show ?thesis
    by (simp add: removeTrailingEmpty_rev)
qed

lemma lineStream_last: "lineStream data \<noteq> [] \<Longrightarrow> last (lineStream data) \<noteq> []"
  unfolding lineStream_def by (rule removeTrailingEmpty_last)

lemma lineStream_trimmed:
  assumes "l \<in> set (lineStream data)" "l \<noteq> []"
  shows "\<not> isSpace (hd l) \<and> \<not> isSpace (last l)"
proof -
  have "l \<in> set (map trimmed (split CHR 0x0A data))"
    using assms(1) removeTrailingEmpty_set unfolding lineStream_def by blast
  then obtain p where "l = trimmed p"
    by auto
  then show ?thesis
    using trimmed_ends [of p] assms(2) by simp
qed

subsection \<open>Failures when no sum leaves the range of int\<close>

lemma cellViolation_message:
  "e \<in> set (cellViolation toks gi i j) \<Longrightarrow> \<exists>m. e = Message m"
  by (auto simp add: cellViolation_def InvalidMatrixValue_def MatrixValueNotBinary_def
        split: option.splits if_splits)

lemma blockViolations_message:
  assumes "e \<in> set (blockViolations lines s gi)"
  shows "\<exists>m. e = Message m"
proof -
  have row: "\<exists>m. e = Message m"
    if "e \<in> set (rowViolations lines c n gi i)" for c n i
    using that cellViolation_message
    by (auto simp add: rowViolations_def Let_def RowLengthMismatch_def split: if_splits)
  have "\<exists>m. e = Message m" if "e \<in> set (matrixViolations lines c n gi)" for c n
    using that row by (auto simp add: matrixViolations_def)
  then show ?thesis
    using assms
    by (auto simp add: blockViolations_def UnexpectedEndOfInput_def InvalidVertexCount_def
          InsufficientMatrixRows_def split: if_splits)
qed

lemma parseSingleGraph_message:
  assumes "int (length lines) \<le> INT_MAX" "noOverflow lines s"
    and "parseSingleGraph lines (int s) gi = Inl e"
  shows "\<exists>m. e = Message m"
proof (cases "blockViolations lines s gi")
  case Nil
  then show ?thesis
    using parseSingleGraph_blockViolations [OF assms(1,2), of gi] assms(3) by simp
next
  case (Cons e' es)
  then have "e = e'"
    using parseSingleGraph_blockViolations [OF assms(1,2), of gi] assms(3) by simp
  then have "e \<in> set (blockViolations lines s gi)"
    using Cons by simp
  then show ?thesis
    by (rule blockViolations_message)
qed

lemma parseLines_message:
  assumes "int (length lines) \<le> INT_MAX" "\<forall>s. noOverflow lines s"
    and "parseLines lines = Inl e"
  shows "\<exists>m. e = Message m"
proof (cases "length lines < 2")
  case True
  then show ?thesis
    using assms(3) by (auto simp add: parseLines_def Exception_def MalformedInput_def)
next
  case False
  then have two: "2 \<le> length lines" by simp
  show ?thesis
  proof (cases "parseSingleGraph lines 0 0")
    case (Inl e')
    then have "parseSingleGraph lines (int 0) 0 = Inl e"
      using assms(3) by (simp add: parseLines_unfold [OF two])
    with assms(1,2) show ?thesis
      using parseSingleGraph_message by blast
  next
    case (Inr p)
    obtain g1 k where p: "p = (g1, k)" by (cases p)
    from parseSingleGraph_Inr [OF Inr [unfolded p, folded int_ops(1)] assms(1)]
    obtain s' n' where "int 0 = int s'" "validBlock lines s' n'" "k = int s' + 1 + int n'"
      by blast
    then have k: "k = int (1 + n')" by simp
    have "parseSingleGraph lines (int (1 + n')) 1 = Inl e"
      using assms(3) Inr p k
      by (auto simp add: parseLines_unfold [OF two] split: sum.splits prod.splits)
    with assms(1,2) show ?thesis
      using parseSingleGraph_message by blast
  qed
qed


section \<open>The claims\<close>

text \<open>
  The hypothesis \<open>int (length data) \<le> INT_MAX\<close> (or the same on a list of
  lines) says that the text is a \<^verbatim>\<open>QString\<close> (the list a \<^verbatim>\<open>QStringList\<close>):
  their sizes are of type \<^verbatim>\<open>int\<close>. A block is named by the line \<open>s\<close> of its
  count line; the first block is at line 0 and has \<open>graphIndex\<close> 0, the second one
  follows it and has \<open>graphIndex\<close> 1.
\<close>

subsection \<open>Valid input\<close>

text \<open>
  Claim C1. For every valid input, that is a text (of a length a \<^verbatim>\<open>QString\<close> can
  have) whose line stream holds a well-formed block of \<open>n1\<close> vertices at line 0
  and a well-formed block of \<open>n2\<close> vertices right after it, the parse returns two
  graphs. Each graph has exactly the declared number of vertices, labelled by their
  index as text in the order \<open>0..N-1\<close>; its edges are exactly the pairs \<open>(i, j)\<close>
  whose matrix cell is 1, none twice; and every vertex \<open>v\<close> holds as outgoing edges
  the edges of origin \<open>v\<close>, as incoming edges the edges of target \<open>v\<close>.
\<close>

theorem valid_input_graphs:
  assumes "int (length data) \<le> INT_MAX"
    and "validBlock (lineStream data) 0 n1"
    and "validBlock (lineStream data) (1 + n1) n2"
  shows "\<exists>g1 g2. parseData data = Inr (g1, g2) \<and>
           representsMatrix (lineStream data) 0 n1 g1 \<and>
           representsMatrix (lineStream data) (1 + n1) n2 g2"
proof -
  let ?L = "lineStream data"
  have "parseData data =
      Inr (builtGraph ?L 1 (int n1) 0, builtGraph ?L (int (1 + n1) + 1) (int n2) 1)"
    unfolding parseData_def
    by (rule parseLines_valid [OF lineStream_INT_MAX [OF assms(1)] assms(2,3)])
  moreover have "representsMatrix ?L 0 n1 (builtGraph ?L 1 (int n1) 0)"
    using builtGraph_represents [of ?L 0 n1 0] by simp
  moreover have "representsMatrix ?L (1 + n1) n2 (builtGraph ?L (int (1 + n1) + 1) (int n2) 1)"
    by (rule builtGraph_represents)
  ultimately show ?thesis by blast
qed

theorem valid_input_graphs_witness:
  "int (length ''2\<newline>1 0\<newline>0 1\<newline>1\<newline>0\<newline>'') \<le> INT_MAX \<and>
   validBlock (lineStream ''2\<newline>1 0\<newline>0 1\<newline>1\<newline>0\<newline>'') 0 2 \<and>
   validBlock (lineStream ''2\<newline>1 0\<newline>0 1\<newline>1\<newline>0\<newline>'') (1 + 2) 1 \<and>
   (\<exists>g1 g2. parseData ''2\<newline>1 0\<newline>0 1\<newline>1\<newline>0\<newline>'' = Inr (g1, g2) \<and>
      representsMatrix (lineStream ''2\<newline>1 0\<newline>0 1\<newline>1\<newline>0\<newline>'') 0 2 g1 \<and>
      representsMatrix (lineStream ''2\<newline>1 0\<newline>0 1\<newline>1\<newline>0\<newline>'') (1 + 2) 1 g2)"
proof -
  have h1: "int (length ''2\<newline>1 0\<newline>0 1\<newline>1\<newline>0\<newline>'') \<le> INT_MAX"
    by code_simp
  have h2: "validBlock (lineStream ''2\<newline>1 0\<newline>0 1\<newline>1\<newline>0\<newline>'') 0 2"
    by code_simp
  have h3: "validBlock (lineStream ''2\<newline>1 0\<newline>0 1\<newline>1\<newline>0\<newline>'') (1 + 2) 1"
    by code_simp
  show ?thesis
    using h1 h2 h3 valid_input_graphs [OF h1 h2 h3] by blast
qed
subsection \<open>Blank lines\<close>

text \<open>
  The split of line 11 leaves out every piece of length zero, so a line of length
  zero between two matrix rows is skipped: the text below, with such a line inside
  the first block, has no empty line in its stream and parses to the same two graphs
  as the text without that line.
\<close>

theorem interior_empty_line_counterexample:
  "lineStream ''2\<newline>1 0\<newline>\<newline>0 1\<newline>1\<newline>0\<newline>'' = [''2'', ''1 0'', ''0 1'', ''1'', ''0''] \<and>
   parseData ''2\<newline>1 0\<newline>\<newline>0 1\<newline>1\<newline>0\<newline>'' = parseData ''2\<newline>1 0\<newline>0 1\<newline>1\<newline>0\<newline>'' \<and>
   parseData ''2\<newline>1 0\<newline>\<newline>0 1\<newline>1\<newline>0\<newline>'' =
     Inr (\<lparr>gtype = DIRECTED, gid = ''graph_0'',
            vertices =
              [\<lparr>vid = ''0'', edgesOut = [\<lparr>origin = 0, target = 0\<rparr>],
                 edgesIn = [\<lparr>origin = 0, target = 0\<rparr>]\<rparr>,
               \<lparr>vid = ''1'', edgesOut = [\<lparr>origin = 1, target = 1\<rparr>],
                 edgesIn = [\<lparr>origin = 1, target = 1\<rparr>]\<rparr>],
            edges = [\<lparr>origin = 0, target = 0\<rparr>, \<lparr>origin = 1, target = 1\<rparr>]\<rparr>,
          \<lparr>gtype = DIRECTED, gid = ''graph_1'',
            vertices = [\<lparr>vid = ''0'', edgesOut = [], edgesIn = []\<rparr>], edges = []\<rparr>)"
  by code_simp

text \<open>
  Claim C2, as the parser has it. For a text made of the lines \<open>xs\<close> (none holding
  a line feed): the line stream is made of the lines of non-zero length, each
  without the whitespace at its two ends, and without the empty ones after the last
  line that is not empty. So a line of length zero is skipped wherever it stands,
  and the text parses like the text without it. A line of whitespace only that is
  followed by a line that stays remains in the stream, as an empty line at its
  place. Lines of whitespace only or of length zero at the end of the text are
  discarded: the stream is that of the text without them. The stream of any text
  does not end with an empty line, and none of its lines starts or ends with
  whitespace. An empty line cannot stand within the two blocks of an input that
  parses: whenever the parse succeeds, no line of the two blocks is empty.
\<close>

theorem blank_lines:
  assumes "\<forall>l \<in> set xs \<union> set ys \<union> set ws. CHR 0x0A \<notin> set l" and "CHR 0x0A \<notin> set w"
    and "int (length data) \<le> INT_MAX"
  shows "lineStream (joinLines xs) =
           rev (dropWhile (\<lambda>l. l = []) (rev (map trimmed (filter (\<lambda>l. l \<noteq> []) xs)))) \<and>
         lineStream (joinLines (xs @ [] # ys)) = lineStream (joinLines (xs @ ys)) \<and>
         parseData (joinLines (xs @ [] # ys)) = parseData (joinLines (xs @ ys)) \<and>
         (w \<noteq> [] \<and> list_all isSpace w \<and> lineStream (joinLines ys) \<noteq> [] \<longrightarrow>
            lineStream (joinLines (xs @ w # ys)) =
              map trimmed (filter (\<lambda>l. l \<noteq> []) xs) @ [] # lineStream (joinLines ys)) \<and>
         (list_all (list_all isSpace) ws \<longrightarrow>
            lineStream (joinLines (xs @ ws)) = lineStream (joinLines xs)) \<and>
         (lineStream data \<noteq> [] \<longrightarrow> last (lineStream data) \<noteq> []) \<and>
         (\<forall>l \<in> set (lineStream data). l \<noteq> [] \<longrightarrow> \<not> isSpace (hd l) \<and> \<not> isSpace (last l)) \<and>
         (parseData data = Inr (g1, g2) \<longrightarrow>
            (\<exists>n1 n2. validBlock (lineStream data) 0 n1 \<and>
                validBlock (lineStream data) (1 + n1) n2 \<and>
                (\<forall>k < 2 + n1 + n2. lineStream data ! k \<noteq> [])))"
proof (intro conjI impI ballI)
  have nx: "\<forall>l \<in> set xs. CHR 0x0A \<notin> set l" and ny: "\<forall>l \<in> set ys. CHR 0x0A \<notin> set l"
    using assms(1) by simp_all
  show "lineStream (joinLines xs) =
      rev (dropWhile (\<lambda>l. l = []) (rev (map trimmed (filter (\<lambda>l. l \<noteq> []) xs))))"
    unfolding lineStream_joinLines [OF nx] by (rule removeTrailingEmpty_rev)
  have n1: "\<forall>l \<in> set (xs @ [] # ys). CHR 0x0A \<notin> set l"
    and n2: "\<forall>l \<in> set (xs @ ys). CHR 0x0A \<notin> set l"
    using nx ny by auto
  show eq: "lineStream (joinLines (xs @ [] # ys)) = lineStream (joinLines (xs @ ys))"
    unfolding lineStream_joinLines [OF n1] lineStream_joinLines [OF n2] by simp
  show "parseData (joinLines (xs @ [] # ys)) = parseData (joinLines (xs @ ys))"
    by (simp add: parseData_def eq)
next
  assume a: "w \<noteq> [] \<and> list_all isSpace w \<and> lineStream (joinLines ys) \<noteq> []"
  then have tw: "trimmed w = []"
    by (simp add: trimmed_blank)
  have nx: "\<forall>l \<in> set xs. CHR 0x0A \<notin> set l" and ny: "\<forall>l \<in> set ys. CHR 0x0A \<notin> set l"
    using assms(1) by simp_all
  have n3: "\<forall>l \<in> set (xs @ w # ys). CHR 0x0A \<notin> set l"
    using nx ny assms(2) by auto
  let ?A = "map trimmed (filter (\<lambda>l. l \<noteq> []) xs)"
  let ?B = "map trimmed (filter (\<lambda>l. l \<noteq> []) ys)"
  have B: "removeTrailingEmpty ?B \<noteq> []"
    using a lineStream_joinLines [OF ny] by simp
  have "removeTrailingEmpty ([[]] @ ?B) = [[]] @ removeTrailingEmpty ?B"
    by (rule removeTrailingEmpty_append [OF B])
  then have B': "removeTrailingEmpty ([] # ?B) = [] # removeTrailingEmpty ?B"
    by simp
  have "lineStream (joinLines (xs @ w # ys)) = removeTrailingEmpty (?A @ [] # ?B)"
    unfolding lineStream_joinLines [OF n3] using a tw by simp
  also have "\<dots> = ?A @ removeTrailingEmpty ([] # ?B)"
    by (rule removeTrailingEmpty_append) (simp add: B')
  finally show "lineStream (joinLines (xs @ w # ys)) = ?A @ [] # lineStream (joinLines ys)"
    by (simp add: B' lineStream_joinLines [OF ny])
next
  assume a: "list_all (list_all isSpace) ws"
  have nx: "\<forall>l \<in> set xs. CHR 0x0A \<notin> set l"
    and nw: "\<forall>l \<in> set (xs @ ws). CHR 0x0A \<notin> set l"
    using assms(1) by auto
  have "\<forall>l \<in> set (map trimmed (filter (\<lambda>l. l \<noteq> []) ws)). l = []"
    using a by (auto simp add: list_all_iff trimmed_blank)
  from removeTrailingEmpty_blank [OF this, of "map trimmed (filter (\<lambda>l. l \<noteq> []) xs)"]
  show "lineStream (joinLines (xs @ ws)) = lineStream (joinLines xs)"
    unfolding lineStream_joinLines [OF nw] lineStream_joinLines [OF nx] by simp
next
  assume "lineStream data \<noteq> []"
  then show "last (lineStream data) \<noteq> []"
    by (rule lineStream_last)
next
  fix l
  assume "l \<in> set (lineStream data)" "l \<noteq> []"
  then have "\<not> isSpace (hd l) \<and> \<not> isSpace (last l)"
    by (rule lineStream_trimmed)
  then show "\<not> isSpace (hd l)" "\<not> isSpace (last l)"
    by simp_all
next
  assume "parseData data = Inr (g1, g2)"
  then have "parseLines (lineStream data) = Inr (g1, g2)"
    by (simp add: parseData_def)
  from parseLines_Inr [OF lineStream_INT_MAX [OF assms(3)] this] obtain n1 n2 where
    b: "validBlock (lineStream data) 0 n1" "validBlock (lineStream data) (1 + n1) n2"
    by blast
  have "lineStream data ! k \<noteq> []" if "k < 2 + n1 + n2" for k
  proof (cases "k \<le> n1")
    case True
    then show ?thesis
      using validBlock_no_blank [OF b(1), of k] by simp
  next
    case False
    then show ?thesis
      using validBlock_no_blank [OF b(2), of k] that by simp
  qed
  then show "\<exists>n1 n2. validBlock (lineStream data) 0 n1 \<and>
                validBlock (lineStream data) (1 + n1) n2 \<and>
                (\<forall>k < 2 + n1 + n2. lineStream data ! k \<noteq> [])"
    using b by blast
qed

theorem blank_lines_witness:
  "CHR 0x0A \<notin> set (concat ([''2'', ''1 0''] @ [''0 1'', ''1'', ''0''] @ [''  '', [], '' ''])) \<and>
   CHR 0x0A \<notin> set ''  '' \<and>
   int (length ''2\<newline>1 0\<newline>0 1\<newline>1\<newline>0\<newline>  \<newline>\<newline> \<newline>'') \<le> INT_MAX \<and>
   ''  '' \<noteq> [] \<and> list_all isSpace ''  '' \<and>
   lineStream (joinLines [''0 1'', ''1'', ''0'']) \<noteq> [] \<and>
   list_all (list_all isSpace) [''  '', [], '' ''] \<and>
   lineStream (joinLines ([''2'', ''1 0''] @ [] # [''0 1'', ''1'', ''0''])) =
     lineStream (joinLines ([''2'', ''1 0''] @ [''0 1'', ''1'', ''0''])) \<and>
   lineStream (joinLines ([''2'', ''1 0''] @ ''  '' # [''0 1'', ''1'', ''0''])) =
     [''2'', ''1 0'', [], ''0 1'', ''1'', ''0''] \<and>
   parseData (joinLines ([''2'', ''1 0''] @ ''  '' # [''0 1'', ''1'', ''0''])) =
     Inl (Message ''Adjacency matrix row 2 of graph 1 has 0 values, expected 2'') \<and>
   joinLines ([''2'', ''1 0'', ''0 1'', ''1'', ''0''] @ [''  '', [], '' '', []]) =
     ''2\<newline>1 0\<newline>0 1\<newline>1\<newline>0\<newline>  \<newline>\<newline> \<newline>'' \<and>
   lineStream ''2\<newline>1 0\<newline>0 1\<newline>1\<newline>0\<newline>  \<newline>\<newline> \<newline>'' = [''2'', ''1 0'', ''0 1'', ''1'', ''0''] \<and>
   lineStream ''2\<newline>1 0\<newline>0 1\<newline>1\<newline>0\<newline>  \<newline>\<newline> \<newline>'' = lineStream ''2\<newline>1 0\<newline>0 1\<newline>1\<newline>0'' \<and>
   last (lineStream ''2\<newline>1 0\<newline>0 1\<newline>1\<newline>0\<newline>  \<newline>\<newline> \<newline>'') \<noteq> [] \<and>
   (\<exists>n1 n2. \<forall>k < 2 + n1 + n2. lineStream ''2\<newline>1 0\<newline>0 1\<newline>1\<newline>0\<newline>  \<newline>\<newline> \<newline>'' ! k \<noteq> [])"
proof -
  let ?xs = "[''2'', ''1 0'']"
  let ?ys = "[''0 1'', ''1'', ''0'']"
  let ?ws = "[''  '', [], '' '']"
  let ?F = "[''2'', ''1 0'', ''0 1'', ''1'', ''0'']"
  let ?D = "''2\<newline>1 0\<newline>0 1\<newline>1\<newline>0\<newline>  \<newline>\<newline> \<newline>''"
  let ?G1 = "\<lparr>gtype = DIRECTED, gid = ''graph_0'',
            vertices =
              [\<lparr>vid = ''0'', edgesOut = [\<lparr>origin = 0, target = 0\<rparr>],
                 edgesIn = [\<lparr>origin = 0, target = 0\<rparr>]\<rparr>,
               \<lparr>vid = ''1'', edgesOut = [\<lparr>origin = 1, target = 1\<rparr>],
                 edgesIn = [\<lparr>origin = 1, target = 1\<rparr>]\<rparr>],
            edges = [\<lparr>origin = 0, target = 0\<rparr>, \<lparr>origin = 1, target = 1\<rparr>]\<rparr>"
  let ?G2 = "\<lparr>gtype = DIRECTED, gid = ''graph_1'',
            vertices = [\<lparr>vid = ''0'', edgesOut = [], edgesIn = []\<rparr>], edges = []\<rparr>"
  have h1: "\<forall>l \<in> set ?xs \<union> set ?ys \<union> set ?ws. CHR 0x0A \<notin> set l"
    by simp
  have h1': "\<forall>l \<in> set ?F \<union> set [] \<union> set (?ws @ [[]]). CHR 0x0A \<notin> set l"
    by simp
  have h0: "CHR 0x0A \<notin> set (concat (?xs @ ?ys @ ?ws))"
    by simp
  have h2: "CHR 0x0A \<notin> set ''  ''"
    by simp
  have h3: "int (length ?D) \<le> INT_MAX"
    by code_simp
  have h4: "''  '' \<noteq> [] \<and> list_all isSpace ''  '' \<and> lineStream (joinLines ?ys) \<noteq> []"
    by code_simp
  have h6: "list_all (list_all isSpace) ?ws"
    by code_simp
  have h6': "list_all (list_all isSpace) (?ws @ [[]])"
    by code_simp
  have h5: "parseData ?D = Inr (?G1, ?G2)"
    by code_simp
  have v: "map trimmed (filter (\<lambda>l. l \<noteq> []) ?xs) @ [] # lineStream (joinLines ?ys) =
      [''2'', ''1 0'', [], ''0 1'', ''1'', ''0'']"
    by code_simp
  have p: "parseData (joinLines (?xs @ ''  '' # ?ys)) =
      Inl (Message ''Adjacency matrix row 2 of graph 1 has 0 values, expected 2'')"
    by code_simp
  have j: "joinLines (?F @ ?ws @ [[]]) = ?D"
    by simp
  have j': "joinLines ?F = ''2\<newline>1 0\<newline>0 1\<newline>1\<newline>0''"
    by simp
  have f: "lineStream (joinLines ?F) = ?F"
    by code_simp
  note t = blank_lines [OF h1 h2 h3, of ?G1 ?G2]
  note u = blank_lines [OF h1' h2 h3, of ?G1 ?G2]
  have c2: "lineStream (joinLines (?xs @ [] # ?ys)) = lineStream (joinLines (?xs @ ?ys))"
    using t by blast
  have c4: "lineStream (joinLines (?xs @ ''  '' # ?ys)) =
      map trimmed (filter (\<lambda>l. l \<noteq> []) ?xs) @ [] # lineStream (joinLines ?ys)"
    using t h4 by blast
  have c5: "lineStream (joinLines (?F @ ?ws @ [[]])) = lineStream (joinLines ?F)"
    using u h6' by blast
  have c5a: "lineStream ?D = lineStream ''2\<newline>1 0\<newline>0 1\<newline>1\<newline>0''"
    using c5 unfolding j j' .
  have c5b: "lineStream ?D = ?F"
    using c5 f unfolding j by simp
  have c6: "last (lineStream ?D) \<noteq> []"
    using t c5b by simp
  have c7: "\<exists>n1 n2. \<forall>k < 2 + n1 + n2. lineStream ?D ! k \<noteq> []"
    using t h5 by blast
  have j2: "joinLines (?F @ [''  '', [], '' '', []]) = ?D"
    by simp
  show ?thesis
    using h0 h2 h3 h4 h6 c2 c4 [unfolded v] p j2 c5a c5b c6 c7 by blast
qed

subsection \<open>The line cursor\<close>

text \<open>
  Claim C3. On a list of lines of a length a \<^verbatim>\<open>QStringList\<close> can have, a block
  parsed with success from line \<open>startLine\<close>, whose count line declares \<open>N\<close>
  vertices, returns the next line \<open>startLine + 1 + N\<close>. When the parse of the two
  blocks succeeds, the first block was parsed from line 0 and the second block from
  the very line the parse of the first block returned.
\<close>

theorem cursor_chaining:
  assumes "int (length lines) \<le> INT_MAX"
  shows "(parseSingleGraph lines startLine graphIndex = Inr (g, nextLine) \<longrightarrow>
            (\<exists>N. toInt (lines ! nat startLine) = Some N \<and> 0 < N \<and>
                 nextLine = startLine + 1 + N)) \<and>
         (parseLines lines = Inr (g1, g2) \<longrightarrow>
            (\<exists>N1 N2. toInt (lines ! 0) = Some N1 \<and>
                parseSingleGraph lines 0 0 = Inr (g1, 0 + 1 + N1) \<and>
                toInt (lines ! nat (0 + 1 + N1)) = Some N2 \<and>
                parseSingleGraph lines (0 + 1 + N1) 1 = Inr (g2, (0 + 1 + N1) + 1 + N2)))"
proof (intro conjI impI)
  assume "parseSingleGraph lines startLine graphIndex = Inr (g, nextLine)"
  from parseSingleGraph_Inr [OF this assms] obtain s n where
    b: "startLine = int s" "validBlock lines s n" "nextLine = int s + 1 + int n"
    by blast
  have "toInt (lines ! nat startLine) = Some (int n)" "0 < int n"
    using b(1,2) by (simp_all add: validBlock_def)
  then show "\<exists>N. toInt (lines ! nat startLine) = Some N \<and> 0 < N \<and> nextLine = startLine + 1 + N"
    using b(1,3) by blast
next
  assume "parseLines lines = Inr (g1, g2)"
  from parseLines_Inr [OF assms this] obtain n1 n2 where
    b: "validBlock lines 0 n1" "validBlock lines (1 + n1) n2"
      "parseSingleGraph lines 0 0 = Inr (g1, int (1 + n1))"
      "parseSingleGraph lines (int (1 + n1)) 1 = Inr (g2, int (1 + n1) + 1 + int n2)"
    by blast
  have t1: "toInt (lines ! 0) = Some (int n1)"
    using b(1) by (simp add: validBlock_def)
  have t2: "toInt (lines ! nat (0 + 1 + int n1)) = Some (int n2)"
  proof -
    have "nat (0 + 1 + int n1) = 1 + n1" by linarith
    then show ?thesis using b(2) by (simp add: validBlock_def)
  qed
  have e: "0 + 1 + int n1 = int (1 + n1)" by simp
  show "\<exists>N1 N2. toInt (lines ! 0) = Some N1 \<and>
          parseSingleGraph lines 0 0 = Inr (g1, 0 + 1 + N1) \<and>
          toInt (lines ! nat (0 + 1 + N1)) = Some N2 \<and>
          parseSingleGraph lines (0 + 1 + N1) 1 = Inr (g2, (0 + 1 + N1) + 1 + N2)"
    using t1 t2 b(3,4) unfolding e [symmetric] by blast
qed

theorem cursor_chaining_witness:
  "int (length [''2'', ''1 0'', ''0 1'', ''1'', ''0'']) \<le> INT_MAX \<and>
   parseSingleGraph [''2'', ''1 0'', ''0 1'', ''1'', ''0''] 0 0 =
     Inr (\<lparr>gtype = DIRECTED, gid = ''graph_0'',
            vertices =
              [\<lparr>vid = ''0'', edgesOut = [\<lparr>origin = 0, target = 0\<rparr>],
                 edgesIn = [\<lparr>origin = 0, target = 0\<rparr>]\<rparr>,
               \<lparr>vid = ''1'', edgesOut = [\<lparr>origin = 1, target = 1\<rparr>],
                 edgesIn = [\<lparr>origin = 1, target = 1\<rparr>]\<rparr>],
            edges = [\<lparr>origin = 0, target = 0\<rparr>, \<lparr>origin = 1, target = 1\<rparr>]\<rparr>, 3) \<and>
   parseLines [''2'', ''1 0'', ''0 1'', ''1'', ''0''] =
     Inr (\<lparr>gtype = DIRECTED, gid = ''graph_0'',
            vertices =
              [\<lparr>vid = ''0'', edgesOut = [\<lparr>origin = 0, target = 0\<rparr>],
                 edgesIn = [\<lparr>origin = 0, target = 0\<rparr>]\<rparr>,
               \<lparr>vid = ''1'', edgesOut = [\<lparr>origin = 1, target = 1\<rparr>],
                 edgesIn = [\<lparr>origin = 1, target = 1\<rparr>]\<rparr>],
            edges = [\<lparr>origin = 0, target = 0\<rparr>, \<lparr>origin = 1, target = 1\<rparr>]\<rparr>,
          \<lparr>gtype = DIRECTED, gid = ''graph_1'',
            vertices = [\<lparr>vid = ''0'', edgesOut = [], edgesIn = []\<rparr>], edges = []\<rparr>) \<and>
   (\<exists>N. toInt ([''2'', ''1 0'', ''0 1'', ''1'', ''0''] ! nat 0) = Some N \<and> 0 < N \<and>
        (3 :: int) = 0 + 1 + N) \<and>
   (\<exists>N1 N2. toInt ([''2'', ''1 0'', ''0 1'', ''1'', ''0''] ! 0) = Some N1 \<and>
        toInt ([''2'', ''1 0'', ''0 1'', ''1'', ''0''] ! nat (0 + 1 + N1)) = Some N2)"
proof -
  let ?L = "[''2'', ''1 0'', ''0 1'', ''1'', ''0'']"
  let ?G1 = "\<lparr>gtype = DIRECTED, gid = ''graph_0'',
            vertices =
              [\<lparr>vid = ''0'', edgesOut = [\<lparr>origin = 0, target = 0\<rparr>],
                 edgesIn = [\<lparr>origin = 0, target = 0\<rparr>]\<rparr>,
               \<lparr>vid = ''1'', edgesOut = [\<lparr>origin = 1, target = 1\<rparr>],
                 edgesIn = [\<lparr>origin = 1, target = 1\<rparr>]\<rparr>],
            edges = [\<lparr>origin = 0, target = 0\<rparr>, \<lparr>origin = 1, target = 1\<rparr>]\<rparr>"
  let ?G2 = "\<lparr>gtype = DIRECTED, gid = ''graph_1'',
            vertices = [\<lparr>vid = ''0'', edgesOut = [], edgesIn = []\<rparr>], edges = []\<rparr>"
  have h: "int (length ?L) \<le> INT_MAX"
    by code_simp
  have a: "parseSingleGraph ?L 0 0 = Inr (?G1, 3)"
    by code_simp
  have b: "parseLines ?L = Inr (?G1, ?G2)"
    by code_simp
  from cursor_chaining [OF h, of 0 0 ?G1 3 ?G1 ?G2] a b
  have c: "\<exists>N. toInt (?L ! nat 0) = Some N \<and> 0 < N \<and> (3 :: int) = 0 + 1 + N"
    and d: "\<exists>N1 N2. toInt (?L ! 0) = Some N1 \<and>
                parseSingleGraph ?L 0 0 = Inr (?G1, 0 + 1 + N1) \<and>
                toInt (?L ! nat (0 + 1 + N1)) = Some N2 \<and>
                parseSingleGraph ?L (0 + 1 + N1) 1 = Inr (?G2, (0 + 1 + N1) + 1 + N2)"
    by blast+
  from d have d': "\<exists>N1 N2. toInt (?L ! 0) = Some N1 \<and> toInt (?L ! nat (0 + 1 + N1)) = Some N2"
    by blast
  show ?thesis
    using h a b c d' by blast
qed
subsection \<open>Matrix values\<close>



subsection \<open>Row lengths\<close>

text \<open>
  In the text below the second row of the first block has one token where two are
  expected, but the first row holds the token \<^verbatim>\<open>x\<close>: the parse fails at that
  token, with the message of the value, and never reads the second row.
\<close>

theorem short_row_after_bad_token_counterexample:
  "lineStream ''2\<newline>1 x\<newline>3\<newline>0\<newline>7 8\<newline>'' = [''2'', ''1 x'', ''3'', ''0'', ''7 8''] \<and>
   length (split CHR '' '' (lineStream ''2\<newline>1 x\<newline>3\<newline>0\<newline>7 8\<newline>'' ! 2)) = 1 \<and>
   parseData ''2\<newline>1 x\<newline>3\<newline>0\<newline>7 8\<newline>'' =
     Inl (Message ''Invalid adjacency matrix value 'x' at position (1,2) in graph 1'') \<and>
   parseData ''2\<newline>1 x\<newline>3\<newline>0\<newline>7 8\<newline>'' \<noteq> Inl (RowLengthMismatch 2 1 1 2)"
  by code_simp

text \<open>
  Claim C5, as the parser has it. In a block whose count line declares \<open>n\<close>
  vertices and whose \<open>n\<close> rows are there, let row \<open>i\<close> have a number of tokens
  other than \<open>n\<close>, the tokens being the non-empty pieces between spaces. Then the
  parse of the block returns no graph, and neither does the parse of the input when
  the block is one of its two blocks. When the row is the first violation of the
  block in scan order (the rows above are valid), the parse of the block, and with
  it the parse of the input, fails with the message of the row length, which reads
  the row \<open>i + 1\<close>, the block number \<open>graphIndex + 1\<close>, the number of tokens found
  and the number expected. For the input \<^verbatim>\<open>"2\n1 0\n0\n"\<close> this is row 2 of graph
  1, with 1 value where 2 are expected.
\<close>

theorem row_length_mismatch:
  assumes "int (length lines) \<le> INT_MAX"
    and "toInt (lines ! s) = Some (int n)" "s + n < length lines"
    and "i < n"
    and "length (split CHR '' '' (lines ! (s + 1 + i))) \<noteq> n"
  shows "(list_all (validRow lines s n) [0..<i] \<longrightarrow>
            parseSingleGraph lines (int s) graphIndex =
              Inl (Message (rowLengthText (int i + 1) (graphIndex + 1)
                     (int (length (split CHR '' '' (lines ! (s + 1 + i))))) (int n)))) \<and>
         (list_all (validRow lines s n) [0..<i] \<and> reachedBlock lines s graphIndex \<longrightarrow>
            parseLines lines =
              Inl (Message (rowLengthText (int i + 1) (graphIndex + 1)
                     (int (length (split CHR '' '' (lines ! (s + 1 + i))))) (int n)))) \<and>
         (\<forall>g k. parseSingleGraph lines (int s) graphIndex \<noteq> Inr (g, k)) \<and>
         (reachedBlock lines s graphIndex \<longrightarrow> (\<forall>g1 g2. parseLines lines \<noteq> Inr (g1, g2)))"
proof -
  let ?E = "RowLengthMismatch (int i + 1) (graphIndex + 1)
              (int (length (split CHR '' '' (lines ! (s + 1 + i))))) (int n)"
  let ?M = "Message (rowLengthText (int i + 1) (graphIndex + 1)
              (int (length (split CHR '' '' (lines ! (s + 1 + i))))) (int n))"
  have two: "2 \<le> length lines"
    using assms(3,4) by linarith
  have block: "parseSingleGraph lines (int s) graphIndex = Inl ?M"
    if "list_all (validRow lines s n) [0..<i]"
  proof -
    from matrixViolations_row [OF assms(4) that, of graphIndex]
    have "\<exists>es. matrixViolations lines (int s + 1) (int n) graphIndex = ?E # es"
      by (simp add: rowViolations_length [OF assms(5)])
    moreover have "0 < n" using assms(4) by simp
    ultimately have "parseSingleGraph lines (int s) graphIndex = Inl ?E"
      using parseSingleGraph_first [OF assms(1,2,3)] by blast
    then show ?thesis
      by (simp only: rowLength_message)
  qed
  have never: "parseSingleGraph lines (int s) graphIndex \<noteq> Inr (g, k)" for g k
  proof -
    have "\<not> validRow lines s n i"
      using assms(5) by (simp add: validRow_def)
    from parseSingleGraph_not_Inr [OF assms(1,2,4) this] show ?thesis .
  qed
  have whole: "parseLines lines = Inl ?M"
    if "list_all (validRow lines s n) [0..<i] \<and> reachedBlock lines s graphIndex"
    using parseLines_reached_Inl [OF assms(1) two] block that by blast
  have whole_never: "parseLines lines \<noteq> Inr (g1, g2)"
    if "reachedBlock lines s graphIndex" for g1 g2
    using parseLines_reached_Inr [OF assms(1) that] never by blast
  show ?thesis
    using block whole never whole_never by blast
qed

theorem row_length_mismatch_witness:
  "lineStream ''2\<newline>1 0\<newline>0\<newline>'' = [''2'', ''1 0'', ''0''] \<and>
   int (length [''2'', ''1 0'', ''0'']) \<le> INT_MAX \<and>
   toInt ([''2'', ''1 0'', ''0''] ! 0) = Some (int 2) \<and>
   0 + 2 < length [''2'', ''1 0'', ''0''] \<and> (1 :: nat) < 2 \<and>
   length (split CHR '' '' ([''2'', ''1 0'', ''0''] ! (0 + 1 + 1))) \<noteq> 2 \<and>
   list_all (validRow [''2'', ''1 0'', ''0''] 0 2) [0..<1] \<and>
   reachedBlock [''2'', ''1 0'', ''0''] 0 0 \<and>
   parseSingleGraph [''2'', ''1 0'', ''0''] (int 0) 0 =
     Inl (Message ''Adjacency matrix row 2 of graph 1 has 1 values, expected 2'') \<and>
   parseLines [''2'', ''1 0'', ''0''] =
     Inl (Message ''Adjacency matrix row 2 of graph 1 has 1 values, expected 2'') \<and>
   parseData ''2\<newline>1 0\<newline>0\<newline>'' =
     Inl (Message ''Adjacency matrix row 2 of graph 1 has 1 values, expected 2'')"
proof -
  let ?L = "[''2'', ''1 0'', ''0'']"
  let ?T = "rowLengthText (int 1 + 1) (0 + 1)
             (int (length (split CHR '' '' (?L ! (0 + 1 + 1))))) (int 2)"
  let ?V = "''Adjacency matrix row 2 of graph 1 has 1 values, expected 2''"
  have l: "lineStream ''2\<newline>1 0\<newline>0\<newline>'' = ?L"
    by code_simp
  have h1: "int (length ?L) \<le> INT_MAX"
    by code_simp
  have h2: "toInt (?L ! 0) = Some (int 2)"
    by code_simp
  have h3: "0 + 2 < length ?L"
    by simp
  have h4: "(1 :: nat) < 2"
    by simp
  have h5: "length (split CHR '' '' (?L ! (0 + 1 + 1))) \<noteq> 2"
    by code_simp
  have h6: "list_all (validRow ?L 0 2) [0..<1]"
    by code_simp
  have h7: "reachedBlock ?L 0 0"
    by (simp add: reachedBlock_def)
  have e: "?T = ?V"
    by code_simp
  note t = row_length_mismatch [OF h1 h2 h3 h4 h5, of 0]
  have r: "parseSingleGraph ?L (int 0) 0 = Inl (Message ?V)"
    using t h6 unfolding e by blast
  have w: "parseLines ?L = Inl (Message ?V)"
    using t h6 h7 unfolding e by blast
  have d: "parseData ''2\<newline>1 0\<newline>0\<newline>'' = Inl (Message ?V)"
    using w by (simp add: parseData_def l)
  show ?thesis
    using l h1 h2 h3 h4 h5 h6 h7 r w d by blast
qed
subsection \<open>All or nothing\<close>

text \<open>
  Claim C6. The test of line 54 adds the count to the line index in \<^verbatim>\<open>int\<close>. In
  the text below the count line of the second block, at line 2, reads 2147483647:
  the sum 3 + 2147483647 leaves the range of \<^verbatim>\<open>int\<close>, its two's-complement
  value is negative, and the test does not raise the message of the missing rows.
  The parse goes on to lines 59 to 66 and creates 2147483647 vertices, then reads,
  at line 70, the line of index 3 in a list of 3 lines. It ends there, outside the
  list, and with no message of the parser.
\<close>

theorem count_beyond_int_range:
  "lineStream ''1\<newline>0\<newline>2147483647\<newline>'' = [''1'', ''0'', ''2147483647''] \<and>
   toInt ''2147483647'' = Some 2147483647 \<and>
   wrap32 (3 + 2147483647) = - 2147483646 \<and>
   parseSingleGraph [''1'', ''0'', ''2147483647''] 0 0 =
     Inr (\<lparr>gtype = DIRECTED, gid = ''graph_0'',
            vertices = [\<lparr>vid = ''0'', edgesOut = [], edgesIn = []\<rparr>], edges = []\<rparr>, 2) \<and>
   parseSingleGraph [''1'', ''0'', ''2147483647''] 2 1 = Inl IndexOutOfRange \<and>
   parseData ''1\<newline>0\<newline>2147483647\<newline>'' = Inl IndexOutOfRange \<and>
   parseData ''1\<newline>0\<newline>2147483647\<newline>'' \<noteq> Inl (InsufficientMatrixRows 2)"
proof -
  let ?L = "[''1'', ''0'', ''2147483647'']"
  let ?G = "\<lparr>gtype = DIRECTED, gid = ''graph_0'',
            vertices = [\<lparr>vid = ''0'', edgesOut = [], edgesIn = []\<rparr>], edges = []\<rparr>"
  have l: "lineStream ''1\<newline>0\<newline>2147483647\<newline>'' = ?L"
    by code_simp
  have t: "toInt ''2147483647'' = Some 2147483647"
    by code_simp
  have w: "wrap32 (3 + 2147483647) = - 2147483646"
    by (simp add: wrap32_def)
  have p1: "parseSingleGraph ?L 0 0 = Inr (?G, 2)"
    by code_simp
  have "parseSingleGraph ?L (int 2) 1 = Inl IndexOutOfRange"
  proof (rule parseSingleGraph_wrapped)
    show "2 < length ?L" by simp
    show "toInt (?L ! 2) = Some 2147483647" using t by simp
    show "(0 :: int) < 2147483647" by simp
    show "wrap32 (int 2 + 1 + 2147483647) \<le> int (length ?L)" by (simp add: wrap32_def)
    show "length ?L \<le> 2 + 1" by simp
  qed
  then have p2: "parseSingleGraph ?L 2 1 = Inl IndexOutOfRange"
    by simp
  have "(case Inr (?G, 2) of
          Inl e \<Rightarrow> Inl e
        | Inr (graph1, nextLine) \<Rightarrow>
            (case parseSingleGraph ?L nextLine 1 of
               Inl e \<Rightarrow> Inl e
             | Inr (graph2, _) \<Rightarrow> Inr (graph1, graph2))) = Inl IndexOutOfRange"
    by (simp only: sum.case prod.case p2)
  then have "parseLines ?L = Inl IndexOutOfRange"
    by (simp only: parseLines_unfold [of ?L, simplified] p1)
  then have d: "parseData ''1\<newline>0\<newline>2147483647\<newline>'' = Inl IndexOutOfRange"
    by (simp add: parseData_def l)
  have n: "Inl IndexOutOfRange \<noteq> (Inl (InsufficientMatrixRows 2) :: error + graph \<times> graph)"
    by (simp add: InsufficientMatrixRows_def)
  show ?thesis
    using l t w p1 p2 d n by simp
qed
subsection \<open>The count line\<close>




subsection \<open>Fewer than two lines\<close>

text \<open>
  Claim C8. An input whose line stream (after the split, the trimming and the
  removal of the trailing blank lines) has fewer than two lines fails with
  \<open>MalformedInput\<close>. In particular every single-line input does: a text without a
  line feed, with or without one line feed after it.
\<close>

theorem malformed_input:
  "(length (lineStream data) < 2 \<longrightarrow> parseData data = Inl MalformedInput) \<and>
   (CHR 0x0A \<notin> set data \<longrightarrow>
      parseData data = Inl MalformedInput \<and>
      parseData (data @ [CHR 0x0A]) = Inl MalformedInput)"
proof -
  have short: "parseData d = Inl MalformedInput" if "length (lineStream d) < 2" for d
    using that by (simp add: parseData_def parseLines_def Exception_def)
  have one: "length (lineStream data) < 2" "length (lineStream (data @ [CHR 0x0A])) < 2"
    if "CHR 0x0A \<notin> set data"
    using split_single [OF that] lineStream_le_split [of data]
      lineStream_le_split [of "data @ [CHR 0x0A]"]
    by linarith+
  show ?thesis
    using short one by blast
qed

theorem malformed_input_witness:
  "length (lineStream ''5'') < 2 \<and> CHR 0x0A \<notin> set ''5'' \<and>
   parseData ''5'' = Inl MalformedInput \<and> parseData ''5\<newline>'' = Inl MalformedInput"
proof -
  have h1: "length (lineStream ''5'') < 2"
    by code_simp
  have h2: "CHR 0x0A \<notin> set ''5''"
    by simp
  show ?thesis
    using malformed_input [of "''5''"] h1 h2 by simp
qed

subsection \<open>Lines after the second block\<close>

text \<open>
  Claim C9. For every input whose line stream starts with two well-formed blocks,
  of \<open>n1\<close> and \<open>n2\<close> vertices, the parse succeeds and returns the same two graphs
  as the parse of any text whose line stream is that of the input cut after the
  last row of the second block, that is after its first \<open>2 + n1 + n2\<close> lines.
  What follows the second block, blank lines included, has no effect.
\<close>

theorem trailing_lines_ignored:
  assumes "int (length data) \<le> INT_MAX"
    and "validBlock (lineStream data) 0 n1"
    and "validBlock (lineStream data) (1 + n1) n2"
    and "lineStream truncated = take (2 + n1 + n2) (lineStream data)"
  shows "\<exists>g1 g2. parseData data = Inr (g1, g2) \<and> parseData truncated = Inr (g1, g2)"
proof -
  let ?L = "lineStream data"
  let ?k = "2 + n1 + n2"
  have bound: "int (length ?L) \<le> INT_MAX"
    by (rule lineStream_INT_MAX [OF assms(1)])
  then have bound': "int (length (take ?k ?L)) \<le> INT_MAX"
    by simp
  have v1: "validBlock (take ?k ?L) 0 n1"
    using assms(2) by (rule validBlock_take) simp
  have v2: "validBlock (take ?k ?L) (1 + n1) n2"
    using assms(3) by (rule validBlock_take) simp
  have g1: "builtGraph (take ?k ?L) 1 (int n1) 0 = builtGraph ?L 1 (int n1) 0"
    using builtGraph_take [of 0 n1 ?k ?L 0] by simp
  have g2: "builtGraph (take ?k ?L) (int (1 + n1) + 1) (int n2) 1 =
      builtGraph ?L (int (1 + n1) + 1) (int n2) 1"
    by (rule builtGraph_take) simp
  have "parseData data =
      Inr (builtGraph ?L 1 (int n1) 0, builtGraph ?L (int (1 + n1) + 1) (int n2) 1)"
    unfolding parseData_def by (rule parseLines_valid [OF bound assms(2,3)])
  moreover have "parseData truncated =
      Inr (builtGraph ?L 1 (int n1) 0, builtGraph ?L (int (1 + n1) + 1) (int n2) 1)"
    unfolding parseData_def assms(4) using parseLines_valid [OF bound' v1 v2]
    by (simp only: g1 g2)
  ultimately show ?thesis by blast
qed

theorem trailing_lines_ignored_witness:
  "int (length ''1\<newline>0\<newline>1\<newline>0\<newline>extra 7\<newline>\<newline>  \<newline>'') \<le> INT_MAX \<and>
   validBlock (lineStream ''1\<newline>0\<newline>1\<newline>0\<newline>extra 7\<newline>\<newline>  \<newline>'') 0 1 \<and>
   validBlock (lineStream ''1\<newline>0\<newline>1\<newline>0\<newline>extra 7\<newline>\<newline>  \<newline>'') (1 + 1) 1 \<and>
   lineStream ''1\<newline>0\<newline>1\<newline>0\<newline>'' =
     take (2 + 1 + 1) (lineStream ''1\<newline>0\<newline>1\<newline>0\<newline>extra 7\<newline>\<newline>  \<newline>'') \<and>
   (\<exists>g1 g2. parseData ''1\<newline>0\<newline>1\<newline>0\<newline>extra 7\<newline>\<newline>  \<newline>'' = Inr (g1, g2) \<and>
      parseData ''1\<newline>0\<newline>1\<newline>0\<newline>'' = Inr (g1, g2))"
proof -
  have h1: "int (length ''1\<newline>0\<newline>1\<newline>0\<newline>extra 7\<newline>\<newline>  \<newline>'') \<le> INT_MAX"
    by code_simp
  have h2: "validBlock (lineStream ''1\<newline>0\<newline>1\<newline>0\<newline>extra 7\<newline>\<newline>  \<newline>'') 0 1"
    by code_simp
  have h3: "validBlock (lineStream ''1\<newline>0\<newline>1\<newline>0\<newline>extra 7\<newline>\<newline>  \<newline>'') (1 + 1) 1"
    by code_simp
  have h4: "lineStream ''1\<newline>0\<newline>1\<newline>0\<newline>'' =
     take (2 + 1 + 1) (lineStream ''1\<newline>0\<newline>1\<newline>0\<newline>extra 7\<newline>\<newline>  \<newline>'')"
    by code_simp
  show ?thesis
    using h1 h2 h3 h4 trailing_lines_ignored [OF h1 h2 h3 h4] by blast
qed
subsection \<open>Which violation is reported\<close>

text \<open>
  Claim C10. The messages of lines 48, 82 and 83 are built by calls of \<^verbatim>\<open>arg\<close>
  one after the other, the first of them with a text of the input. A place marker
  in that text is taken by the next call for a marker of the message. In the first
  text below, cell (1,2) of the first block holds \<^verbatim>\<open>%1\<close> and is the first
  violation in scan order; cell (2,1) holds \<^verbatim>\<open>x\<close>, a later violation. The parse
  fails at cell (1,2), but its message names the value 1 at position (2,1) and no
  block. In the second text the count line of the first block is \<^verbatim>\<open>%1\<close>: the
  message names neither that line nor the block.
\<close>

theorem place_marker_in_input:
  "lineStream ''2\<newline>0 %1\<newline>x 0\<newline>1\<newline>0\<newline>'' = [''2'', ''0 %1'', ''x 0'', ''1'', ''0''] \<and>
   matrixCell [''2'', ''0 %1'', ''x 0'', ''1'', ''0''] 0 0 0 = Some 0 \<and>
   matrixCell [''2'', ''0 %1'', ''x 0'', ''1'', ''0''] 0 0 1 = None \<and>
   parseData ''2\<newline>0 %1\<newline>x 0\<newline>1\<newline>0\<newline>'' =
     Inl (Message ''Invalid adjacency matrix value '1' at position (2,1) in graph %4'') \<and>
   parseData ''2\<newline>0 %1\<newline>x 0\<newline>1\<newline>0\<newline>'' \<noteq>
     Inl (Message (invalidValueText ''%1'' 1 2 1)) \<and>
   invalidValueText ''%1'' 1 2 1 =
     ''Invalid adjacency matrix value '%1' at position (1,2) in graph 1'' \<and>
   parseData ''%1\<newline>0\<newline>'' = Inl (Message ''Invalid vertex count '1' for graph %2'') \<and>
   vertexCountText ''%1'' 1 = ''Invalid vertex count '%1' for graph 1''"
  by code_simp

end
